theory Spec2Isabelle
  imports Complex_Main "HOL-Library.Multiset" "HOL-Library.Log_Nat"
begin

section \<open>Numbers\<close>

text \<open>
  The component computes with JavaScript numbers, that is with IEEE 754 doubles. A
  \<open>js_number\<close> is a finite double, given by its value, an infinity, or NaN. Every
  arithmetic operation takes the exact result and rounds it to the nearest double, ties
  to the even significand, with gradual underflow and with overflow to an infinity
  (\<open>round_double\<close>). Negative zero is identified with zero: it is equal to zero in every
  comparison and is falsy like zero, and the divisors of the component (a total that is
  greater than zero, the constant 100, a difference of two thresholds) are never a
  negative zero as long as no input is one.
\<close>

datatype js_number = Finite rat | PosInfinity | NegInfinity | NaN

text \<open>The exponent \<open>e\<close> of a positive rational \<open>a\<close>, with \<open>2\<^sup>e \<le> a < 2\<^sup>e\<^sup>+\<^sup>1\<close>.\<close>

definition floor_log2 :: "rat \<Rightarrow> int" where
  "floor_log2 a = (if a < 1 then - bitlen (\<lceil>1 / a\<rceil> - 1) else bitlen \<lfloor>a\<rfloor> - 1)"

definition round_half_even :: "rat \<Rightarrow> int" where
  "round_half_even x =
     (let f = \<lfloor>x\<rfloor>; r = x - of_int f
      in if r < 1 / 2 then f else if 1 / 2 < r then f + 1 else if even f then f else f + 1)"

text \<open>
  Rounding to binary64: 53 significant bits, least exponent \<open>-1022\<close> (below it the
  spacing stays \<open>2\<^sup>-\<^sup>1\<^sup>0\<^sup>7\<^sup>4\<close>), and a rounded magnitude of \<open>2\<^sup>1\<^sup>0\<^sup>2\<^sup>4\<close> or more is an
  infinity.
\<close>

definition round_double :: "rat \<Rightarrow> js_number" where
  "round_double q =
     (if q = 0 then Finite 0
      else let a = \<bar>q\<bar>;
               e = max (floor_log2 a) (- 1022);
               ulp = 2 powi (e - 52);
               r = of_int (round_half_even (a / ulp)) * ulp
           in if 2 powi 1024 \<le> r then (if 0 < q then PosInfinity else NegInfinity)
              else Finite (if 0 < q then r else - r))"

text \<open>The infinity with the sign of a finite factor; NaN for a zero factor.\<close>

definition inf_signed :: "rat \<Rightarrow> js_number" where
  "inf_signed a = (if 0 < a then PosInfinity else if a < 0 then NegInfinity else NaN)"

fun js_neg :: "js_number \<Rightarrow> js_number" where
  "js_neg (Finite a) = Finite (- a)"
| "js_neg PosInfinity = NegInfinity"
| "js_neg NegInfinity = PosInfinity"
| "js_neg NaN = NaN"

text \<open>\<^verbatim>\<open>x + y\<close>\<close>

fun js_add :: "js_number \<Rightarrow> js_number \<Rightarrow> js_number" where
  "js_add (Finite a) (Finite b) = round_double (a + b)"
| "js_add NaN y = NaN"
| "js_add x NaN = NaN"
| "js_add PosInfinity NegInfinity = NaN"
| "js_add NegInfinity PosInfinity = NaN"
| "js_add PosInfinity y = PosInfinity"
| "js_add NegInfinity y = NegInfinity"
| "js_add (Finite a) y = y"

text \<open>\<^verbatim>\<open>x - y\<close>\<close>

definition js_sub :: "js_number \<Rightarrow> js_number \<Rightarrow> js_number" where
  "js_sub x y = js_add x (js_neg y)"

text \<open>\<^verbatim>\<open>x * y\<close>\<close>

fun js_mul :: "js_number \<Rightarrow> js_number \<Rightarrow> js_number" where
  "js_mul (Finite a) (Finite b) = round_double (a * b)"
| "js_mul NaN y = NaN"
| "js_mul x NaN = NaN"
| "js_mul PosInfinity (Finite b) = inf_signed b"
| "js_mul NegInfinity (Finite b) = inf_signed (- b)"
| "js_mul (Finite a) PosInfinity = inf_signed a"
| "js_mul (Finite a) NegInfinity = inf_signed (- a)"
| "js_mul PosInfinity PosInfinity = PosInfinity"
| "js_mul PosInfinity NegInfinity = NegInfinity"
| "js_mul NegInfinity PosInfinity = NegInfinity"
| "js_mul NegInfinity NegInfinity = PosInfinity"

text \<open>
  \<^verbatim>\<open>x / y\<close>: a zero divisor gives the infinity with the sign of the dividend, and NaN for
  a zero dividend.
\<close>

fun js_div :: "js_number \<Rightarrow> js_number \<Rightarrow> js_number" where
  "js_div (Finite a) (Finite b) = (if b = 0 then inf_signed a else round_double (a / b))"
| "js_div NaN y = NaN"
| "js_div x NaN = NaN"
| "js_div (Finite a) y = Finite 0"
| "js_div PosInfinity (Finite b) = (if 0 \<le> b then PosInfinity else NegInfinity)"
| "js_div NegInfinity (Finite b) = (if 0 \<le> b then NegInfinity else PosInfinity)"
| "js_div x y = NaN"

text \<open>\<^verbatim>\<open>x <= y\<close> and \<^verbatim>\<open>x < y\<close>; every comparison with NaN is false.\<close>

fun js_le :: "js_number \<Rightarrow> js_number \<Rightarrow> bool" where
  "js_le (Finite a) (Finite b) = (a \<le> b)"
| "js_le NaN y = False"
| "js_le x NaN = False"
| "js_le NegInfinity y = True"
| "js_le x PosInfinity = True"
| "js_le x y = False"

fun js_lt :: "js_number \<Rightarrow> js_number \<Rightarrow> bool" where
  "js_lt (Finite a) (Finite b) = (a < b)"
| "js_lt NaN y = False"
| "js_lt x NaN = False"
| "js_lt PosInfinity y = False"
| "js_lt x NegInfinity = False"
| "js_lt x y = True"

text \<open>\<^verbatim>\<open>Math.min(x, y)\<close> and \<^verbatim>\<open>Math.max(x, y)\<close>; NaN is contagious.\<close>

definition js_min :: "js_number \<Rightarrow> js_number \<Rightarrow> js_number" where
  "js_min x y = (if x = NaN \<or> y = NaN then NaN else if js_le x y then x else y)"

definition js_max :: "js_number \<Rightarrow> js_number \<Rightarrow> js_number" where
  "js_max x y = (if x = NaN \<or> y = NaN then NaN else if js_le x y then y else x)"

text \<open>
  \<^verbatim>\<open>x || d\<close>, where \<open>x\<close> is a field of an object that may be missing (\<^verbatim>\<open>?.\<close>): the default
  \<open>d\<close> is taken when the object is missing and also when \<open>x\<close> is \<open>0\<close>, which is falsy.
\<close>

fun js_or :: "rat option \<Rightarrow> js_number \<Rightarrow> js_number" where
  "js_or None d = d"
| "js_or (Some x) d = (if x = 0 then d else Finite x)"

section \<open>Data model\<close>

text \<open>
  Modelled from the spec: the declarations of \<^verbatim>\<open>Account\<close>, \<^verbatim>\<open>SalesData\<close>,
  \<^verbatim>\<open>IncentiveRule\<close>, its tiers, \<^verbatim>\<open>User\<close> and \<^verbatim>\<open>IncentiveCalculation\<close> live in
  \<^verbatim>\<open>../types\<close>, which is not among the sources. The records below carry the fields
  that \<^verbatim>\<open>IncentiveOverview.tsx\<close> reads and writes, under the names it uses (with a
  suffix where two records share a field name or the name is taken in HOL). A numeric
  field of an input record holds the value of a finite double; the numbers of a
  calculation are computed and may be infinite or NaN.
\<close>

record account =
  id_acc :: string
  user_id_acc :: string

record sales_data =
  account_id :: string
  total_purchases :: rat
  gross_commission :: rat

record tier =
  revenue_threshold :: rat
  incentive_rate :: rat

record incentive_rule =
  is_active :: bool
  commission_rate_min :: rat
  commission_rate_max :: rat
  min_commission_threshold :: rat
  base_revenue_threshold :: rat
  tiers :: "tier list"

record user =
  id_usr :: string
  name_usr :: string
  role :: string
  managed_accounts :: "string list"

record incentive_calculation =
  user_id :: string
  user_name :: string
  total_revenue :: js_number
  total_commission :: js_number
  commission_rate :: js_number
  applicable_rule :: "incentive_rule option"
  current_tier :: "tier option"
  next_tier :: "tier option"
  incentive_amount :: js_number
  progress_percentage :: js_number
  remaining_to_next_tier :: js_number
  managed_accounts_count :: nat

section \<open>The calculation\<close>

text \<open>
  \<^verbatim>\<open>getUserName\<close> closes over the component's \<^verbatim>\<open>currentUser\<close> and \<^verbatim>\<open>allUsers\<close>;
  here they are arguments.
\<close>

definition getUserName :: "user \<Rightarrow> user list \<Rightarrow> string \<Rightarrow> string" where
  "getUserName currentUser allUsers userId =
     (if userId = id_usr currentUser then name_usr currentUser
      else case find (\<lambda>u. id_usr u = userId) allUsers of
             Some u \<Rightarrow> name_usr u
           | None \<Rightarrow> ''User '' @ take 8 userId)"

text \<open>\<^verbatim>\<open>allSalesData.filter(data => userAccounts.some(acc => acc.id === data.account_id))\<close>\<close>

definition userSalesData :: "account list \<Rightarrow> sales_data list \<Rightarrow> sales_data list" where
  "userSalesData userAccounts allSalesData =
     filter (\<lambda>d. list_ex (\<lambda>acc. id_acc acc = account_id d) userAccounts) allSalesData"

text \<open>
  \<^verbatim>\<open>xs.reduce((sum, data) => sum + f(data), 0)\<close>: the rows are added one by one, from
  the left, each sum rounded.
\<close>

definition reduce_sum :: "('a \<Rightarrow> rat) \<Rightarrow> 'a list \<Rightarrow> js_number" where
  "reduce_sum f xs = foldl (\<lambda>sum d. js_add sum (Finite (f d))) (Finite 0) xs"

definition totalRevenue :: "account list \<Rightarrow> sales_data list \<Rightarrow> js_number" where
  "totalRevenue userAccounts allSalesData =
     reduce_sum total_purchases (userSalesData userAccounts allSalesData)"

definition totalCommission :: "account list \<Rightarrow> sales_data list \<Rightarrow> js_number" where
  "totalCommission userAccounts allSalesData =
     reduce_sum gross_commission (userSalesData userAccounts allSalesData)"

text \<open>\<^verbatim>\<open>totalRevenue > 0 ? (totalCommission / totalRevenue) * 100 : 0\<close>\<close>

definition commissionRate :: "account list \<Rightarrow> sales_data list \<Rightarrow> js_number" where
  "commissionRate userAccounts allSalesData =
     (if js_lt (Finite 0) (totalRevenue userAccounts allSalesData)
      then js_mul (js_div (totalCommission userAccounts allSalesData)
                          (totalRevenue userAccounts allSalesData)) (Finite 100)
      else Finite 0)"

text \<open>
  The rule search: a \<^verbatim>\<open>for ... of\<close> over the active rules that takes the first rule
  whose band holds the rate and breaks.
\<close>

fun find_bestRule :: "js_number \<Rightarrow> incentive_rule list \<Rightarrow> incentive_rule option" where
  "find_bestRule rate [] = None"
| "find_bestRule rate (rule # rest) =
     (if js_le (Finite (commission_rate_min rule)) rate \<and>
         (commission_rate_max rule = 100 \<or> js_le rate (Finite (commission_rate_max rule)))
      then Some rule
      else find_bestRule rate rest)"

text \<open>
  The set of qualifying account ids, filled by \<^verbatim>\<open>userAccounts.forEach\<close>: an account's
  commission is summed over the rows of \<open>userSalesData\<close> that carry its id.
\<close>

definition accountCommission :: "sales_data list \<Rightarrow> account \<Rightarrow> js_number" where
  "accountCommission usd acc =
     reduce_sum gross_commission (filter (\<lambda>d. account_id d = id_acc acc) usd)"

definition qualifyingAccountIds ::
  "account list \<Rightarrow> sales_data list \<Rightarrow> incentive_rule \<Rightarrow> string set" where
  "qualifyingAccountIds userAccounts allSalesData bestRule =
     fold (\<lambda>acc ids.
             if js_le (Finite (min_commission_threshold bestRule))
                  (accountCommission (userSalesData userAccounts allSalesData) acc)
             then insert (id_acc acc) ids else ids)
          userAccounts {}"

definition qualifyingRevenue ::
  "account list \<Rightarrow> sales_data list \<Rightarrow> incentive_rule \<Rightarrow> js_number" where
  "qualifyingRevenue userAccounts allSalesData bestRule =
     reduce_sum total_purchases
       (filter (\<lambda>d. account_id d \<in> qualifyingAccountIds userAccounts allSalesData bestRule)
          (userSalesData userAccounts allSalesData))"

text \<open>
  \<^verbatim>\<open>[...bestRule.tiers].sort((a, b) => a.revenue_threshold - b.revenue_threshold)\<close>:
  a stable ascending sort of a copy. The difference of two doubles has the sign of
  their exact difference, so that the comparator orders the tiers by threshold.
\<close>

definition sortedTiers :: "incentive_rule \<Rightarrow> tier list" where
  "sortedTiers bestRule = sort_key revenue_threshold (tiers bestRule)"

text \<open>
  The tier walk. The source indexes \<open>sortedTiers\<close> with \<open>i\<close> and reads
  \<^verbatim>\<open>sortedTiers[i + 1]?.revenue_threshold || qualifyingRevenue\<close>; here the walk is over
  the tiers from index \<open>i\<close> on, so \<^verbatim>\<open>sortedTiers[i + 1]\<close> is the head of the rest, missing
  when the rest is empty. Both branches of the source's \<^verbatim>\<open>i === 0 ? ... : ...\<close> are the
  same expression. The state is \<open>(incentiveAmount, currentTier)\<close>; the result adds
  \<open>nextTier\<close>, set where the walk breaks.
\<close>

definition tierRevenue :: "js_number \<Rightarrow> tier \<Rightarrow> tier list \<Rightarrow> js_number" where
  "tierRevenue qRev t rest =
     js_sub
       (js_min qRev
          (js_or (case rest of [] \<Rightarrow> None | n # _ \<Rightarrow> Some (revenue_threshold n)) qRev))
       (Finite (revenue_threshold t))"

fun tier_loop ::
  "js_number \<Rightarrow> tier list \<Rightarrow> js_number \<times> tier option
     \<Rightarrow> js_number \<times> tier option \<times> tier option" where
  "tier_loop qRev [] (incentiveAmount, currentTier) = (incentiveAmount, currentTier, None)"
| "tier_loop qRev (t # rest) (incentiveAmount, currentTier) =
     (if js_le (Finite (revenue_threshold t)) qRev
      then tier_loop qRev rest
             (js_add incentiveAmount
                (js_mul (tierRevenue qRev t rest)
                   (js_div (Finite (incentive_rate t)) (Finite 100))),
              Some t)
      else (incentiveAmount, currentTier, Some t))"

text \<open>
  Progress to the next tier. \<^verbatim>\<open>currentTier?.revenue_threshold || base_revenue_threshold\<close>
  falls back to the rule's base threshold when there is no current tier and when the
  current tier's threshold is \<open>0\<close>.
\<close>

definition progress ::
  "incentive_rule \<Rightarrow> js_number \<Rightarrow> tier option \<Rightarrow> tier option \<Rightarrow> js_number \<times> js_number" where
  "progress bestRule qRev currentTier nextTier =
     (case nextTier of
        Some n \<Rightarrow>
          (let currentThreshold =
                 js_or (map_option revenue_threshold currentTier)
                   (Finite (base_revenue_threshold bestRule));
               nextThreshold = Finite (revenue_threshold n);
               prog = js_sub qRev currentThreshold;
               totalNeeded = js_sub nextThreshold currentThreshold
           in (js_min (js_mul (js_div prog totalNeeded) (Finite 100)) (Finite 100),
               js_max (js_sub nextThreshold qRev) (Finite 0)))
      | None \<Rightarrow>
          (case currentTier of
             Some _ \<Rightarrow> (Finite 100, Finite 0)
           | None \<Rightarrow> (Finite 0, Finite 0)))"

definition calculateUserIncentive ::
  "user \<Rightarrow> user list \<Rightarrow> string \<Rightarrow> account list \<Rightarrow> sales_data list \<Rightarrow> incentive_rule list
     \<Rightarrow> incentive_calculation option" where
  "calculateUserIncentive currentUser allUsers userId userAccounts allSalesData rules =
     (if userAccounts = [] then None
      else let applicableRules = filter is_active rules in
        if applicableRules = [] then None
        else
          (case find_bestRule (commissionRate userAccounts allSalesData) applicableRules of
             None \<Rightarrow>
               Some \<lparr> user_id = userId,
                      user_name = getUserName currentUser allUsers userId,
                      total_revenue = totalRevenue userAccounts allSalesData,
                      total_commission = totalCommission userAccounts allSalesData,
                      commission_rate = commissionRate userAccounts allSalesData,
                      applicable_rule = None,
                      current_tier = None,
                      next_tier = None,
                      incentive_amount = Finite 0,
                      progress_percentage = Finite 0,
                      remaining_to_next_tier = Finite 0,
                      managed_accounts_count = length userAccounts \<rparr>
           | Some bestRule \<Rightarrow>
               (let qRev = qualifyingRevenue userAccounts allSalesData bestRule;
                    (incentiveAmount, currentTier, nextTier) =
                       tier_loop qRev (sortedTiers bestRule) (Finite 0, None);
                    (progressPercentage, remainingToNextTier) =
                       progress bestRule qRev currentTier nextTier
                in Some \<lparr> user_id = userId,
                          user_name = getUserName currentUser allUsers userId,
                          total_revenue = totalRevenue userAccounts allSalesData,
                          total_commission = totalCommission userAccounts allSalesData,
                          commission_rate = commissionRate userAccounts allSalesData,
                          applicable_rule = Some bestRule,
                          current_tier = currentTier,
                          next_tier = nextTier,
                          incentive_amount = incentiveAmount,
                          progress_percentage = progressPercentage,
                          remaining_to_next_tier = remainingToNextTier,
                          managed_accounts_count = length userAccounts \<rparr>)))"

section \<open>The specification's wording\<close>


text \<open>
  An account qualifies under a rule when the sum of \<open>gross_commission\<close> over the sales
  rows that carry its id, added up as the component adds, is at least the rule's
  \<open>min_commission_threshold\<close>; the qualifying revenue is the sum of \<open>total_purchases\<close>
  over the rows of the user's qualifying accounts.
\<close>

definition spec_qualifies :: "sales_data list \<Rightarrow> incentive_rule \<Rightarrow> account \<Rightarrow> bool" where
  "spec_qualifies allSalesData rule acc =
     js_le (Finite (min_commission_threshold rule))
       (reduce_sum gross_commission (filter (\<lambda>d. account_id d = id_acc acc) allSalesData))"

definition spec_qualifyingRevenue ::
  "account list \<Rightarrow> sales_data list \<Rightarrow> incentive_rule \<Rightarrow> js_number" where
  "spec_qualifyingRevenue userAccounts allSalesData rule =
     reduce_sum total_purchases
       (filter (\<lambda>d. \<exists>acc\<in>set userAccounts.
                     id_acc acc = account_id d \<and> spec_qualifies allSalesData rule acc)
          allSalesData)"

text \<open>
  The graduated accrual as the specification words it, in the component's arithmetic,
  over tiers in ascending order: every tier reached adds its rate on the band from its
  threshold to the next tier's threshold, capped at the qualifying revenue, the band of
  the last tier ending at the qualifying revenue; the walk ends at the first tier not
  reached.
\<close>

fun spec_tier_accrual :: "js_number \<Rightarrow> js_number \<Rightarrow> tier list \<Rightarrow> js_number" where
  "spec_tier_accrual acc qRev [] = acc"
| "spec_tier_accrual acc qRev (t # rest) =
     (if js_le (Finite (revenue_threshold t)) qRev
      then spec_tier_accrual
             (js_add acc
                (js_mul
                   (js_sub
                      (js_min qRev
                         (case rest of [] \<Rightarrow> qRev | n # _ \<Rightarrow> Finite (revenue_threshold n)))
                      (Finite (revenue_threshold t)))
                   (js_div (Finite (incentive_rate t)) (Finite 100))))
             qRev rest
      else acc)"

text \<open>
  What the tiers below the last one of a list accrue once the qualifying revenue has
  passed them all: each its whole band up to the next threshold, at its rate, added up
  in the component's arithmetic.
\<close>

fun lower_bands :: "js_number \<Rightarrow> tier list \<Rightarrow> js_number" where
  "lower_bands acc (t # n # rest) =
     lower_bands
       (js_add acc
          (js_mul (js_sub (Finite (revenue_threshold n)) (Finite (revenue_threshold t)))
             (js_div (Finite (incentive_rate t)) (Finite 100))))
       (n # rest)"
| "lower_bands acc [t] = acc"
| "lower_bands acc [] = acc"

section \<open>Example inputs\<close>

definition user1 :: user where
  "user1 = \<lparr> id_usr = ''u1'', name_usr = ''Ani'', role = ''user'', managed_accounts = [''a1''] \<rparr>"

definition account1 :: account where
  "account1 = \<lparr> id_acc = ''a1'', user_id_acc = ''u1'' \<rparr>"

definition account2 :: account where
  "account2 = \<lparr> id_acc = ''a2'', user_id_acc = ''u1'' \<rparr>"

definition sale :: "string \<Rightarrow> rat \<Rightarrow> rat \<Rightarrow> sales_data" where
  "sale a revenue commission =
     \<lparr> account_id = a, total_purchases = revenue, gross_commission = commission \<rparr>"

definition mk_tier :: "rat \<Rightarrow> rat \<Rightarrow> tier" where
  "mk_tier threshold rate = \<lparr> revenue_threshold = threshold, incentive_rate = rate \<rparr>"

definition mk_rule :: "bool \<Rightarrow> rat \<Rightarrow> rat \<Rightarrow> rat \<Rightarrow> rat \<Rightarrow> tier list \<Rightarrow> incentive_rule" where
  "mk_rule active rate_min rate_max min_commission base ts =
     \<lparr> is_active = active, commission_rate_min = rate_min, commission_rate_max = rate_max,
       min_commission_threshold = min_commission, base_revenue_threshold = base,
       tiers = ts \<rparr>"

lemmas example_defs =
  user1_def account1_def account2_def sale_def mk_tier_def mk_rule_def

lemmas calc_defs =
  calculateUserIncentive_def getUserName_def userSalesData_def reduce_sum_def
  totalRevenue_def totalCommission_def commissionRate_def
  accountCommission_def qualifyingAccountIds_def qualifyingRevenue_def
  sortedTiers_def tierRevenue_def progress_def
  js_sub_def js_min_def js_max_def inf_signed_def Let_def

section \<open>Rounding\<close>

lemma powi_of_int_nonneg: "0 \<le> k \<Longrightarrow> (2::rat) powi k = of_int (2 ^ nat k)"
  by (simp add: power_int_def)

lemma floor_log2_bounds:
  assumes "0 < a"
  shows "2 powi floor_log2 a \<le> a" and "a < 2 powi (floor_log2 a + 1)"
proof -
  have "2 powi floor_log2 a \<le> a \<and> a < 2 powi (floor_log2 a + 1)"
  proof (cases "a < 1")
    case False
    define x where "x = \<lfloor>a\<rfloor>"
    from False have x: "1 \<le> x" unfolding x_def by simp
    then have b: "1 \<le> bitlen x" by (simp add: bitlen_alt_def)
    from bitlen_bounds[of x] x
    have lo: "2 ^ nat (bitlen x - 1) \<le> x" and hi: "x < 2 ^ nat (bitlen x)" by simp_all
    have e: "floor_log2 a = bitlen x - 1" using False by (simp add: floor_log2_def x_def)
    have "(2::rat) powi (bitlen x - 1) = of_int (2 ^ nat (bitlen x - 1))"
      using b by (intro powi_of_int_nonneg) simp
    also have "\<dots> \<le> of_int x" using lo by (simp only: of_int_le_iff)
    also have "\<dots> \<le> a" unfolding x_def by simp
    finally have 1: "2 powi (bitlen x - 1) \<le> a" .
    have "a < of_int (x + 1)" unfolding x_def by linarith
    also have "\<dots> \<le> of_int (2 ^ nat (bitlen x))"
    proof -
      from hi have "x + 1 \<le> 2 ^ nat (bitlen x)" by simp
      then show ?thesis by (rule iffD2[OF of_int_le_iff])
    qed
    also have "\<dots> = (2::rat) powi (bitlen x)"
      using b by (intro powi_of_int_nonneg[symmetric]) simp
    finally have 2: "a < 2 powi (bitlen x)" .
    from 1 2 show ?thesis unfolding e by simp
  next
    case True
    define y where "y = \<lceil>1 / a\<rceil> - 1"
    from True assms have "1 < 1 / a" by simp
    then have "1 < \<lceil>1 / a\<rceil>" by (simp add: less_ceiling_iff)
    then have y: "1 \<le> y" unfolding y_def by simp
    then have b: "1 \<le> bitlen y" by (simp add: bitlen_alt_def)
    from bitlen_bounds[of y] y
    have lo: "2 ^ nat (bitlen y - 1) \<le> y" and hi: "y < 2 ^ nat (bitlen y)" by simp_all
    have e: "floor_log2 a = - bitlen y" using True by (simp add: floor_log2_def y_def)
    have yl: "of_int y < 1 / a" unfolding y_def by linarith
    have yu: "1 / a \<le> of_int (y + 1)" unfolding y_def by simp
    have "1 / a \<le> of_int (y + 1)" by (rule yu)
    also have "\<dots> \<le> of_int (2 ^ nat (bitlen y))"
    proof -
      from hi have "y + 1 \<le> 2 ^ nat (bitlen y)" by simp
      then show ?thesis by (rule iffD2[OF of_int_le_iff])
    qed
    also have "\<dots> = (2::rat) powi (bitlen y)"
      using b by (intro powi_of_int_nonneg[symmetric]) simp
    finally have "1 / a \<le> 2 powi (bitlen y)" .
    then have "1 \<le> a * 2 powi (bitlen y)" using assms by (simp add: field_simps)
    then have 1: "2 powi (- bitlen y) \<le> a"
      by (simp add: power_int_minus field_simps)
    have "(2::rat) powi (bitlen y - 1) = of_int (2 ^ nat (bitlen y - 1))"
      using b by (intro powi_of_int_nonneg) simp
    also have "\<dots> \<le> of_int y" using lo by (simp only: of_int_le_iff)
    also have "\<dots> < 1 / a" by (rule yl)
    finally have "2 powi (bitlen y - 1) < 1 / a" .
    moreover have P: "0 < (2::rat) powi (bitlen y - 1)" by (rule zero_less_power_int) simp
    ultimately have "a < 1 / 2 powi (bitlen y - 1)"
      using assms by (simp add: field_simps)
    moreover have "(2::rat) powi (- bitlen y + 1) = 1 / 2 powi (bitlen y - 1)"
      using power_int_minus_divide[of "2::rat" "bitlen y - 1"] by simp
    ultimately have 2: "a < 2 powi (- bitlen y + 1)"
      by simp
    from 1 2 show ?thesis unfolding e by simp
  qed
  then show "2 powi floor_log2 a \<le> a" and "a < 2 powi (floor_log2 a + 1)" by simp_all
qed

lemma floor_log2_unique:
  assumes "2 powi e \<le> a" and "a < 2 powi (e + 1)"
  shows "floor_log2 a = e"
proof -
  have "0 < (2::rat) powi e" by (rule zero_less_power_int) simp
  with assms(1) have pos: "0 < a" by linarith
  note b = floor_log2_bounds[OF pos]
  have "\<not> floor_log2 a < e"
  proof
    assume "floor_log2 a < e"
    then have "floor_log2 a + 1 \<le> e" by simp
    then have "(2::rat) powi (floor_log2 a + 1) \<le> 2 powi e"
      by (intro power_int_increasing) simp_all
    with b(2) assms(1) show False by simp
  qed
  moreover have "\<not> e < floor_log2 a"
  proof
    assume "e < floor_log2 a"
    then have "e + 1 \<le> floor_log2 a" by simp
    then have "(2::rat) powi (e + 1) \<le> 2 powi floor_log2 a"
      by (intro power_int_increasing) simp_all
    with b(1) assms(2) show False by simp
  qed
  ultimately show ?thesis by simp
qed

lemma round_double_abs:
  assumes "2 powi e \<le> \<bar>q\<bar>" and "\<bar>q\<bar> < 2 powi (e + 1)"
  shows "round_double q =
           (let ulp = 2 powi (max e (- 1022) - 52);
                r = of_int (round_half_even (\<bar>q\<bar> / ulp)) * ulp
            in if 2 powi 1024 \<le> r then (if 0 < q then PosInfinity else NegInfinity)
               else Finite (if 0 < q then r else - r))"
proof -
  have "0 < (2::rat) powi e" by (rule zero_less_power_int) simp
  with assms(1) have "0 < \<bar>q\<bar>" by linarith
  then have "q \<noteq> 0" by simp
  moreover have "floor_log2 \<bar>q\<bar> = e" using assms by (rule floor_log2_unique)
  ultimately show ?thesis
    by (simp only: round_double_def Let_def if_False)
qed

text \<open>Evaluation of a rounding, the exponent given.\<close>

lemma round_double_pos:
  assumes "2 powi e \<le> q" and "q < 2 powi (e + 1)"
    and "of_int (round_half_even (q / 2 powi (max e (- 1022) - 52)))
           * 2 powi (max e (- 1022) - 52) = r"
    and "r < 2 powi 1024"
  shows "round_double q = Finite r"
proof -
  have "0 < (2::rat) powi e" by (rule zero_less_power_int) simp
  with assms(1) have q: "0 < q" by linarith
  then have a: "\<bar>q\<bar> = q" by simp
  from assms(1,2) have "2 powi e \<le> \<bar>q\<bar>" "\<bar>q\<bar> < 2 powi (e + 1)" unfolding a by simp_all
  from round_double_abs[OF this] assms(3,4) q show ?thesis
    unfolding a by (simp add: Let_def)
qed

lemma round_double_neg:
  assumes "2 powi e \<le> - q" and "- q < 2 powi (e + 1)"
    and "of_int (round_half_even (- q / 2 powi (max e (- 1022) - 52)))
           * 2 powi (max e (- 1022) - 52) = r"
    and "r < 2 powi 1024"
  shows "round_double q = Finite (- r)"
proof -
  have "0 < (2::rat) powi e" by (rule zero_less_power_int) simp
  with assms(1) have q: "q < 0" by linarith
  then have a: "\<bar>q\<bar> = - q" by simp
  from assms(1,2) have "2 powi e \<le> \<bar>q\<bar>" "\<bar>q\<bar> < 2 powi (e + 1)" unfolding a by simp_all
  from round_double_abs[OF this] assms(3,4) q show ?thesis
    unfolding a by (simp add: Let_def)
qed

lemma round_double_pos_overflow:
  assumes "2 powi e \<le> q" and "q < 2 powi (e + 1)"
    and "(2::rat) powi 1024 \<le> of_int (round_half_even (q / 2 powi (max e (- 1022) - 52)))
           * 2 powi (max e (- 1022) - 52)"
  shows "round_double q = PosInfinity"
proof -
  have "0 < (2::rat) powi e" by (rule zero_less_power_int) simp
  with assms(1) have q: "0 < q" by linarith
  then have a: "\<bar>q\<bar> = q" by simp
  from assms(1,2) have "2 powi e \<le> \<bar>q\<bar>" "\<bar>q\<bar> < 2 powi (e + 1)" unfolding a by simp_all
  from round_double_abs[OF this] assms(3) q show ?thesis
    unfolding a by (simp add: Let_def)
qed

lemma round_double_neg_overflow:
  assumes "2 powi e \<le> - q" and "- q < 2 powi (e + 1)"
    and "(2::rat) powi 1024 \<le> of_int (round_half_even (- q / 2 powi (max e (- 1022) - 52)))
           * 2 powi (max e (- 1022) - 52)"
  shows "round_double q = NegInfinity"
proof -
  have "0 < (2::rat) powi e" by (rule zero_less_power_int) simp
  with assms(1) have q: "q < 0" by linarith
  then have a: "\<bar>q\<bar> = - q" by simp
  from assms(1,2) have "2 powi e \<le> \<bar>q\<bar>" "\<bar>q\<bar> < 2 powi (e + 1)" unfolding a by simp_all
  from round_double_abs[OF this] assms(3) q show ?thesis
    unfolding a by (simp add: Let_def)
qed

lemma floor_rat_numeral: "\<lfloor>(numeral a :: rat) / numeral b\<rfloor> = numeral a div numeral b"
  using floor_divide_of_int_eq[of "numeral a" "numeral b", where ?'a = rat] by simp

lemmas round_eval = round_half_even_def Let_def floor_rat_numeral

lemma round_double_0 [simp]: "round_double 0 = Finite 0"
  by (simp add: round_double_def)

lemma round_double_not_NaN [simp]: "round_double q \<noteq> NaN"
  by (simp add: round_double_def Let_def)

lemma round_half_even_nonneg: "0 \<le> x \<Longrightarrow> 0 \<le> round_half_even x"
  by (simp add: round_half_even_def Let_def)

lemma round_double_nonneg:
  assumes "0 \<le> q"
  shows "js_le (Finite 0) (round_double q)"
proof (cases "q = 0")
  case True
  then show ?thesis by simp
next
  case False
  with assms have q: "0 < q" by simp
  define ulp :: rat where "ulp = 2 powi (max (floor_log2 \<bar>q\<bar>) (- 1022) - 52)"
  have u: "0 < ulp" unfolding ulp_def by (rule zero_less_power_int) simp
  with q have "0 \<le> \<bar>q\<bar> / ulp" by simp
  then have "0 \<le> round_half_even (\<bar>q\<bar> / ulp)" by (rule round_half_even_nonneg)
  with u have "0 \<le> of_int (round_half_even (\<bar>q\<bar> / ulp)) * ulp" by simp
  with q show ?thesis
    by (simp add: round_double_def Let_def ulp_def)
qed

lemma round_double_minus: "round_double (- q) = js_neg (round_double q)"
  by (simp add: round_double_def Let_def)

lemma round_double_nonpos:
  assumes "q \<le> 0"
  shows "js_le (round_double q) (Finite 0)"
proof -
  from assms have "js_le (Finite 0) (round_double (- q))"
    by (intro round_double_nonneg) simp
  then show ?thesis
    unfolding round_double_minus by (cases "round_double q") simp_all
qed

section \<open>Roundings of the examples\<close>

lemma rd_0: "round_double (- 1500) = Finite (- 1500)"
  by (rule round_double_neg[where e = 10]) (simp_all add: round_eval)

lemma rd_1: "round_double (- 1000) = Finite (- 1000)"
  by (rule round_double_neg[where e = 9]) (simp_all add: round_eval)

lemma rd_2: "round_double (- 500) = Finite (- 500)"
  by (rule round_double_neg[where e = 8]) (simp_all add: round_eval)

lemma rd_3: "round_double (- 100) = Finite (- 100)"
  by (rule round_double_neg[where e = 6]) (simp_all add: round_eval)

lemma rd_4: "round_double (- 50) = Finite (- 50)"
  by (rule round_double_neg[where e = 5]) (simp_all add: round_eval)

lemma rd_5: "round_double (- 1) = Finite (- 1)"
  by (rule round_double_neg[where e = 0]) (simp_all add: round_eval)

lemma rd_6: "round_double (- (1 / 2)) = Finite (- (1 / 2))"
  by (rule round_double_neg[where e = "-1"]) (simp_all add: round_eval)

lemma rd_7: "round_double (9007199254740991 / 450359962737049600000) = Finite (368934881474191 / 18446744073709551616)"
  by (rule round_double_pos[where e = "-16"]) (simp_all add: round_eval)

lemma rd_8: "round_double (1 / 4000) = Finite (1152921504606847 / 4611686018427387904)"
  by (rule round_double_pos[where e = "-12"]) (simp_all add: round_eval)

lemma rd_9: "round_double (1 / 2000) = Finite (1152921504606847 / 2305843009213693952)"
  by (rule round_double_pos[where e = "-11"]) (simp_all add: round_eval)

lemma rd_10: "round_double (8962163258467287 / 4503599627370496000) = Finite (4588627588335251 / 2305843009213693952)"
  by (rule round_double_pos[where e = "-9"]) (simp_all add: round_eval)

lemma rd_11: "round_double (1120270407308411 / 562949953421312000) = Finite (4588627588335251 / 2305843009213693952)"
  by (rule round_double_pos[where e = "-9"]) (simp_all add: round_eval)

lemma rd_12: "round_double (9223372036854775 / 4611686018427387904) = Finite (1152921504606847 / 576460752303423488)"
  by (rule round_double_pos[where e = "-9"]) (simp_all add: round_eval)

lemma rd_13: "round_double (1 / 64) = Finite (1 / 64)"
  by (rule round_double_pos[where e = "-6"]) (simp_all add: round_eval)

lemma rd_14: "round_double (28823037615171175 / 1152921504606846976) = Finite (3602879701896397 / 144115188075855872)"
  by (rule round_double_pos[where e = "-6"]) (simp_all add: round_eval)

lemma rd_15: "round_double (1 / 20) = Finite (3602879701896397 / 72057594037927936)"
  by (rule round_double_pos[where e = "-5"]) (simp_all add: round_eval)

lemma rd_16: "round_double (28823037615171175 / 576460752303423488) = Finite (3602879701896397 / 72057594037927936)"
  by (rule round_double_pos[where e = "-5"]) (simp_all add: round_eval)

lemma rd_17: "round_double (7 / 100) = Finite (1261007895663739 / 18014398509481984)"
  by (rule round_double_pos[where e = "-4"]) (simp_all add: round_eval)

lemma rd_18: "round_double (1261007895663739 / 18014398509481984) = Finite (1261007895663739 / 18014398509481984)"
  by (rule round_double_pos[where e = "-4"]) (simp_all add: round_eval)

lemma rd_19: "round_double (9851624184873 / 140737488355328) = Finite (9851624184873 / 140737488355328)"
  by (rule round_double_pos[where e = "-4"]) (simp_all add: round_eval)

lemma rd_20: "round_double (50 / 501) = Finite (3595688325245905 / 36028797018963968)"
  by (rule round_double_pos[where e = "-4"]) (simp_all add: round_eval)

lemma rd_21: "round_double (100 / 1001) = Finite (1799640210737461 / 18014398509481984)"
  by (rule round_double_pos[where e = "-4"]) (simp_all add: round_eval)

lemma rd_22: "round_double (1 / 10) = Finite (3602879701896397 / 36028797018963968)"
  by (rule round_double_pos[where e = "-4"]) (simp_all add: round_eval)

lemma rd_23: "round_double (3602879701896397 / 36028797018963968) = Finite (3602879701896397 / 36028797018963968)"
  by (rule round_double_pos[where e = "-4"]) (simp_all add: round_eval)

lemma rd_24: "round_double (1261007895663739 / 9007199254740992) = Finite (1261007895663739 / 9007199254740992)"
  by (rule round_double_pos[where e = "-3"]) (simp_all add: round_eval)

lemma rd_25: "round_double (114715689708381275 / 576460752303423488) = Finite (3584865303386915 / 18014398509481984)"
  by (rule round_double_pos[where e = "-3"]) (simp_all add: round_eval)

lemma rd_26: "round_double (1 / 5) = Finite (3602879701896397 / 18014398509481984)"
  by (rule round_double_pos[where e = "-3"]) (simp_all add: round_eval)

lemma rd_27: "round_double (3602879701896397 / 18014398509481984) = Finite (3602879701896397 / 18014398509481984)"
  by (rule round_double_pos[where e = "-3"]) (simp_all add: round_eval)

lemma rd_28: "round_double (1 / 4) = Finite (1 / 4)"
  by (rule round_double_pos[where e = "-2"]) (simp_all add: round_eval)

lemma rd_29: "round_double (10808639105689191 / 36028797018963968) = Finite (1351079888211149 / 4503599627370496)"
  by (rule round_double_pos[where e = "-2"]) (simp_all add: round_eval)

lemma rd_30: "round_double (14411518807585589 / 36028797018963968) = Finite (3602879701896397 / 9007199254740992)"
  by (rule round_double_pos[where e = "-2"]) (simp_all add: round_eval)

lemma rd_31: "round_double (1 / 2) = Finite (1 / 2)"
  by (rule round_double_pos[where e = "-1"]) (simp_all add: round_eval)

lemma rd_32: "round_double (18014398509481985 / 36028797018963968) = Finite (1 / 2)"
  by (rule round_double_pos[where e = "-1"]) (simp_all add: round_eval)

lemma rd_33: "round_double (562949953421312 / 1120270407308411) = Finite (282889423829805 / 562949953421312)"
  by (rule round_double_pos[where e = "-1"]) (simp_all add: round_eval)

lemma rd_34: "round_double (4503599627370496 / 8962163258467287) = Finite (282889423829805 / 562949953421312)"
  by (rule round_double_pos[where e = "-1"]) (simp_all add: round_eval)

lemma rd_35: "round_double (101 / 200) = Finite (4548635623644201 / 9007199254740992)"
  by (rule round_double_pos[where e = "-1"]) (simp_all add: round_eval)

lemma rd_36: "round_double (21617278211378381 / 36028797018963968) = Finite (5404319552844595 / 9007199254740992)"
  by (rule round_double_pos[where e = "-1"]) (simp_all add: round_eval)

lemma rd_37: "round_double (25220157913274777 / 36028797018963968) = Finite (3152519739159347 / 4503599627370496)"
  by (rule round_double_pos[where e = "-1"]) (simp_all add: round_eval)

lemma rd_38: "round_double (28823037615171173 / 36028797018963968) = Finite (7205759403792793 / 9007199254740992)"
  by (rule round_double_pos[where e = "-1"]) (simp_all add: round_eval)

lemma rd_39: "round_double (32425917317067569 / 36028797018963968) = Finite (2026619832316723 / 2251799813685248)"
  by (rule round_double_pos[where e = "-1"]) (simp_all add: round_eval)

lemma rd_40: "round_double (36028797018963965 / 36028797018963968) = Finite (9007199254740991 / 9007199254740992)"
  by (rule round_double_pos[where e = "-1"]) (simp_all add: round_eval)

lemma rd_41: "round_double 1 = Finite 1"
  by (rule round_double_pos[where e = 0]) (simp_all add: round_eval)

lemma rd_42: "round_double (40765615062379492561632685752687 / 40564819207303340847894502572032) = Finite (1131473111381495 / 1125899906842624)"
  by (rule round_double_pos[where e = 0]) (simp_all add: round_eval)

lemma rd_43: "round_double (1131473111381495 / 1125899906842624) = Finite (1131473111381495 / 1125899906842624)"
  by (rule round_double_pos[where e = 0]) (simp_all add: round_eval)

lemma rd_44: "round_double (5095701882797437138783538674611 / 5070602400912917605986812821504) = Finite (1131473111381495 / 1125899906842624)"
  by (rule round_double_pos[where e = 0]) (simp_all add: round_eval)

lemma rd_45: "round_double (3 / 2) = Finite (3 / 2)"
  by (rule round_double_pos[where e = 0]) (simp_all add: round_eval)

lemma rd_46: "round_double (25 / 16) = Finite (25 / 16)"
  by (rule round_double_pos[where e = 0]) (simp_all add: round_eval)

lemma rd_47: "round_double (8962163258467287 / 4503599627370496) = Finite (8962163258467287 / 4503599627370496)"
  by (rule round_double_pos[where e = 0]) (simp_all add: round_eval)

lemma rd_48: "round_double (1120270407308411 / 562949953421312) = Finite (1120270407308411 / 562949953421312)"
  by (rule round_double_pos[where e = 0]) (simp_all add: round_eval)

lemma rd_49: "round_double 2 = Finite 2"
  by (rule round_double_pos[where e = 1]) (simp_all add: round_eval)

lemma rd_50: "round_double (31525197391593475 / 4503599627370496) = Finite (7881299347898369 / 1125899906842624)"
  by (rule round_double_pos[where e = 2]) (simp_all add: round_eval)

lemma rd_51: "round_double (89892208131147625 / 9007199254740992) = Finite (5618263008196727 / 562949953421312)"
  by (rule round_double_pos[where e = 3]) (simp_all add: round_eval)

lemma rd_52: "round_double (44991005268436525 / 4503599627370496) = Finite (2811937829277283 / 281474976710656)"
  by (rule round_double_pos[where e = 3]) (simp_all add: round_eval)

lemma rd_53: "round_double (90071992547409925 / 9007199254740992) = Finite 10"
  by (rule round_double_pos[where e = 3]) (simp_all add: round_eval)

lemma rd_54: "round_double 14 = Finite 14"
  by (rule round_double_pos[where e = 3]) (simp_all add: round_eval)

lemma rd_55: "round_double (90071992547409925 / 4503599627370496) = Finite 20"
  by (rule round_double_pos[where e = 4]) (simp_all add: round_eval)

lemma rd_56: "round_double 25 = Finite 25"
  by (rule round_double_pos[where e = 4]) (simp_all add: round_eval)

lemma rd_57: "round_double 50 = Finite 50"
  by (rule round_double_pos[where e = 5]) (simp_all add: round_eval)

lemma rd_58: "round_double (450359962737049625 / 9007199254740992) = Finite 50"
  by (rule round_double_pos[where e = 5]) (simp_all add: round_eval)

lemma rd_59: "round_double (901980933369762939 / 18014398509481984) = Finite (7046726041951273 / 140737488355328)"
  by (rule round_double_pos[where e = 5]) (simp_all add: round_eval)

lemma rd_60: "round_double (451620970632713339 / 9007199254740992) = Finite (3528288833068073 / 70368744177664)"
  by (rule round_double_pos[where e = 5]) (simp_all add: round_eval)

lemma rd_61: "round_double (7072235595745125 / 140737488355328) = Finite (7072235595745125 / 140737488355328)"
  by (rule round_double_pos[where e = 5]) (simp_all add: round_eval)

lemma rd_62: "round_double 75 = Finite 75"
  by (rule round_double_pos[where e = 6]) (simp_all add: round_eval)

lemma rd_63: "round_double 96 = Finite 96"
  by (rule round_double_pos[where e = 6]) (simp_all add: round_eval)

lemma rd_64: "round_double 100 = Finite 100"
  by (rule round_double_pos[where e = 6]) (simp_all add: round_eval)

lemma rd_65: "round_double 125 = Finite 125"
  by (rule round_double_pos[where e = 6]) (simp_all add: round_eval)

lemma rd_66: "round_double 128 = Finite 128"
  by (rule round_double_pos[where e = 7]) (simp_all add: round_eval)

lemma rd_67: "round_double 150 = Finite 150"
  by (rule round_double_pos[where e = 7]) (simp_all add: round_eval)

lemma rd_68: "round_double 200 = Finite 200"
  by (rule round_double_pos[where e = 7]) (simp_all add: round_eval)

lemma rd_69: "round_double 250 = Finite 250"
  by (rule round_double_pos[where e = 7]) (simp_all add: round_eval)

lemma rd_70: "round_double 300 = Finite 300"
  by (rule round_double_pos[where e = 8]) (simp_all add: round_eval)

lemma rd_71: "round_double 400 = Finite 400"
  by (rule round_double_pos[where e = 8]) (simp_all add: round_eval)

lemma rd_72: "round_double 500 = Finite 500"
  by (rule round_double_pos[where e = 8]) (simp_all add: round_eval)

lemma rd_73: "round_double 550 = Finite 550"
  by (rule round_double_pos[where e = 9]) (simp_all add: round_eval)

lemma rd_74: "round_double 600 = Finite 600"
  by (rule round_double_pos[where e = 9]) (simp_all add: round_eval)

lemma rd_75: "round_double 625 = Finite 625"
  by (rule round_double_pos[where e = 9]) (simp_all add: round_eval)

lemma rd_76: "round_double 750 = Finite 750"
  by (rule round_double_pos[where e = 9]) (simp_all add: round_eval)

lemma rd_77: "round_double 768 = Finite 768"
  by (rule round_double_pos[where e = 9]) (simp_all add: round_eval)

lemma rd_78: "round_double 800 = Finite 800"
  by (rule round_double_pos[where e = 9]) (simp_all add: round_eval)

lemma rd_79: "round_double 900 = Finite 900"
  by (rule round_double_pos[where e = 9]) (simp_all add: round_eval)

lemma rd_80: "round_double (561829683014003589 / 562949953421312) = Finite (4389294398546903 / 4398046511104)"
  by (rule round_double_pos[where e = 9]) (simp_all add: round_eval)

lemma rd_81: "round_double (4494637464112028713 / 4503599627370496) = Finite (4389294398546903 / 4398046511104)"
  by (rule round_double_pos[where e = 9]) (simp_all add: round_eval)

lemma rd_82: "round_double 1000 = Finite 1000"
  by (rule round_double_pos[where e = 9]) (simp_all add: round_eval)

lemma rd_83: "round_double 1001 = Finite 1001"
  by (rule round_double_pos[where e = 9]) (simp_all add: round_eval)

lemma rd_84: "round_double 1002 = Finite 1002"
  by (rule round_double_pos[where e = 9]) (simp_all add: round_eval)

lemma rd_85: "round_double 1024 = Finite 1024"
  by (rule round_double_pos[where e = 10]) (simp_all add: round_eval)

lemma rd_86: "round_double 1100 = Finite 1100"
  by (rule round_double_pos[where e = 10]) (simp_all add: round_eval)

lemma rd_87: "round_double 1500 = Finite 1500"
  by (rule round_double_pos[where e = 10]) (simp_all add: round_eval)

lemma rd_88: "round_double 1536 = Finite 1536"
  by (rule round_double_pos[where e = 10]) (simp_all add: round_eval)

lemma rd_89: "round_double 2000 = Finite 2000"
  by (rule round_double_pos[where e = 10]) (simp_all add: round_eval)

lemma rd_90: "round_double 3000 = Finite 3000"
  by (rule round_double_pos[where e = 11]) (simp_all add: round_eval)

lemma rd_91: "round_double 3998 = Finite 3998"
  by (rule round_double_pos[where e = 11]) (simp_all add: round_eval)

lemma rd_92: "round_double 3999 = Finite 3999"
  by (rule round_double_pos[where e = 11]) (simp_all add: round_eval)

lemma rd_93: "round_double 4000 = Finite 4000"
  by (rule round_double_pos[where e = 11]) (simp_all add: round_eval)

lemma rd_94: "round_double 5000 = Finite 5000"
  by (rule round_double_pos[where e = 12]) (simp_all add: round_eval)

lemma rd_95: "round_double 7680 = Finite 7680"
  by (rule round_double_pos[where e = 12]) (simp_all add: round_eval)

lemma rd_96: "round_double 8192 = Finite 8192"
  by (rule round_double_pos[where e = 13]) (simp_all add: round_eval)

lemma rd_97: "round_double 10000 = Finite 10000"
  by (rule round_double_pos[where e = 13]) (simp_all add: round_eval)

lemma rd_98: "round_double 15000 = Finite 15000"
  by (rule round_double_pos[where e = 13]) (simp_all add: round_eval)

lemma rd_99: "round_double 20000 = Finite 20000"
  by (rule round_double_pos[where e = 14]) (simp_all add: round_eval)

lemma rd_100: "round_double 25000 = Finite 25000"
  by (rule round_double_pos[where e = 14]) (simp_all add: round_eval)

lemma rd_101: "round_double 30000 = Finite 30000"
  by (rule round_double_pos[where e = 14]) (simp_all add: round_eval)

lemma rd_102: "round_double 35000 = Finite 35000"
  by (rule round_double_pos[where e = 15]) (simp_all add: round_eval)

lemma rd_103: "round_double 40000 = Finite 40000"
  by (rule round_double_pos[where e = 15]) (simp_all add: round_eval)

lemma rd_104: "round_double 45000 = Finite 45000"
  by (rule round_double_pos[where e = 15]) (simp_all add: round_eval)

lemma rd_105: "round_double 50000 = Finite 50000"
  by (rule round_double_pos[where e = 15]) (simp_all add: round_eval)

lemma rd_106: "round_double (56294995342131203125 / 1125899906842624) = Finite 50000"
  by (rule round_double_pos[where e = 15]) (simp_all add: round_eval)

lemma rd_107: "round_double 100000 = Finite 100000"
  by (rule round_double_pos[where e = 16]) (simp_all add: round_eval)

lemma rd_108: "round_double 150000 = Finite 150000"
  by (rule round_double_pos[where e = 17]) (simp_all add: round_eval)

lemma rd_109: "round_double 500000 = Finite 500000"
  by (rule round_double_pos[where e = 18]) (simp_all add: round_eval)

lemma rd_110: "round_double 1000000 = Finite 1000000"
  by (rule round_double_pos[where e = 19]) (simp_all add: round_eval)

lemma rd_111: "round_double 1500000 = Finite 1500000"
  by (rule round_double_pos[where e = 20]) (simp_all add: round_eval)

lemma rd_112: "round_double 11235582092889474423308157442431404585112356118389416079589380072358292237843810195794279832650471001320007117491962084853674360550901038905802964414967132773610493339054092829768888725077880882465817684505312860552384417646403930092119569408801702322709406917786643639996702871154982269052209770601514008576 = Finite 11235582092889474423308157442431404585112356118389416079589380072358292237843810195794279832650471001320007117491962084853674360550901038905802964414967132773610493339054092829768888725077880882465817684505312860552384417646403930092119569408801702322709406917786643639996702871154982269052209770601514008576"
  by (rule round_double_pos[where e = 1020]) (simp_all add: round_eval)

lemma rd_113: "round_double 44942328371557897693232629769725618340449424473557664318357520289433168951375240783177119330601884005280028469967848339414697442203604155623211857659868531094441973356216371319075554900311523529863270738021251442209537670585615720368478277635206809290837627671146574559986811484619929076208839082406056034304 = Finite 44942328371557897693232629769725618340449424473557664318357520289433168951375240783177119330601884005280028469967848339414697442203604155623211857659868531094441973356216371319075554900311523529863270738021251442209537670585615720368478277635206809290837627671146574559986811484619929076208839082406056034304"
  by (rule round_double_pos[where e = 1022]) (simp_all add: round_eval)

lemma rd_114: "round_double 89884656743115795386465259539451236680898848947115328636715040578866337902750481566354238661203768010560056939935696678829394884407208311246423715319737062188883946712432742638151109800623047059726541476042502884419075341171231440736956555270413618581675255342293149119973622969239858152417678164812112068608 = Finite 89884656743115795386465259539451236680898848947115328636715040578866337902750481566354238661203768010560056939935696678829394884407208311246423715319737062188883946712432742638151109800623047059726541476042502884419075341171231440736956555270413618581675255342293149119973622969239858152417678164812112068608"
  by (rule round_double_pos[where e = 1023]) (simp_all add: round_eval)

lemma rd_115: "round_double 179769313486231590772930519078902473361797697894230657273430081157732675805500963132708477322407536021120113879871393357658789768814416622492847430639474124377767893424865485276302219601246094119453082952085005768838150682342462881473913110540827237163350510684586298239947245938479716304835356329624224137216 = PosInfinity"
  by (rule round_double_pos_overflow[where e = 1024]) (simp_all add: round_eval)

lemma rd_116: "round_double 224711641857789488466163148848628091702247122367788321591787601447165844756876203915885596653009420026400142349839241697073487211018020778116059288299342655472209866781081856595377774501557617649316353690106257211047688352928078601842391388176034046454188138355732872799934057423099645381044195412030280171520 = PosInfinity"
  by (rule round_double_pos_overflow[where e = 1024]) (simp_all add: round_eval)

lemma rd_117: "round_double 269653970229347386159395778618353710042696546841345985910145121736599013708251444699062715983611304031680170819807090036488184653221624933739271145959211186566651840137298227914453329401869141179179624428127508653257226023513694322210869665811240855745025766026879447359920868907719574457253034494436336205824 = PosInfinity"
  by (rule round_double_pos_overflow[where e = 1024]) (simp_all add: round_eval)

lemma rd_118: "round_double 1123558209288947442330815744243140458511235611838941607958938007235829223784381019579427983265047100132000711749196208485367436055090103890580296441496713277361049333905409282976888872507788088246581768450531286055238441764640393009211956940880170232270940691778664363999670287115498226905220977060151400857600 = PosInfinity"
  by (rule round_double_pos_overflow[where e = 1026]) (simp_all add: round_eval)

lemmas round_evals =
  rd_0 rd_1 rd_2 rd_3 rd_4 rd_5 rd_6 rd_7
  rd_8 rd_9 rd_10 rd_11 rd_12 rd_13 rd_14 rd_15
  rd_16 rd_17 rd_18 rd_19 rd_20 rd_21 rd_22 rd_23
  rd_24 rd_25 rd_26 rd_27 rd_28 rd_29 rd_30 rd_31
  rd_32 rd_33 rd_34 rd_35 rd_36 rd_37 rd_38 rd_39
  rd_40 rd_41 rd_42 rd_43 rd_44 rd_45 rd_46 rd_47
  rd_48 rd_49 rd_50 rd_51 rd_52 rd_53 rd_54 rd_55
  rd_56 rd_57 rd_58 rd_59 rd_60 rd_61 rd_62 rd_63
  rd_64 rd_65 rd_66 rd_67 rd_68 rd_69 rd_70 rd_71
  rd_72 rd_73 rd_74 rd_75 rd_76 rd_77 rd_78 rd_79
  rd_80 rd_81 rd_82 rd_83 rd_84 rd_85 rd_86 rd_87
  rd_88 rd_89 rd_90 rd_91 rd_92 rd_93 rd_94 rd_95
  rd_96 rd_97 rd_98 rd_99 rd_100 rd_101 rd_102 rd_103
  rd_104 rd_105 rd_106 rd_107 rd_108 rd_109 rd_110 rd_111
  rd_112 rd_113 rd_114 rd_115 rd_116 rd_117 rd_118

section \<open>Rounding is monotone\<close>

lemma round_half_even_of_int: "round_half_even (of_int n) = n"
  by (simp add: round_half_even_def)

lemma round_half_even_numeral: "round_half_even (numeral n) = numeral n"
  using round_half_even_of_int[of "numeral n"] by simp

lemma round_half_even_bounds:
  "\<lfloor>x\<rfloor> \<le> round_half_even x" "round_half_even x \<le> \<lfloor>x\<rfloor> + 1"
  by (simp_all add: round_half_even_def Let_def)

lemma round_half_even_mono:
  assumes "x \<le> y"
  shows "round_half_even x \<le> round_half_even y"
proof (cases "\<lfloor>x\<rfloor> < \<lfloor>y\<rfloor>")
  case True
  have "round_half_even x \<le> \<lfloor>x\<rfloor> + 1" by (rule round_half_even_bounds)
  also have "\<dots> \<le> \<lfloor>y\<rfloor>" using True by simp
  also have "\<dots> \<le> round_half_even y" by (rule round_half_even_bounds)
  finally show ?thesis .
next
  case False
  moreover from assms have "\<lfloor>x\<rfloor> \<le> \<lfloor>y\<rfloor>" by (rule floor_mono)
  ultimately have e: "\<lfloor>x\<rfloor> = \<lfloor>y\<rfloor>" by simp
  from assms have "x - of_int \<lfloor>y\<rfloor> \<le> y - of_int \<lfloor>y\<rfloor>" by simp
  then show ?thesis
    unfolding round_half_even_def Let_def e by auto
qed

lemma floor_log2_mono:
  assumes "0 < a" and "a \<le> b"
  shows "floor_log2 a \<le> floor_log2 b"
proof (rule ccontr)
  assume "\<not> floor_log2 a \<le> floor_log2 b"
  then have "floor_log2 b + 1 \<le> floor_log2 a" by simp
  then have "(2::rat) powi (floor_log2 b + 1) \<le> 2 powi floor_log2 a"
    by (intro power_int_increasing) simp_all
  moreover from assms have b: "0 < b" by simp
  note floor_log2_bounds(1)[OF assms(1)] floor_log2_bounds(2)[OF b]
  ultimately show False using assms(2) by linarith
qed

lemma powi_52: "(2::rat) powi e / 2 powi (e - 52) = of_int (2 ^ 52)"
proof -
  have "(2::rat) powi e / 2 powi (e - 52) = 2 powi (e - (e - 52))"
    by (rule power_int_diff[symmetric]) simp
  also have "\<dots> = 2 powi 52" by simp
  also have "\<dots> = of_int (2 ^ 52)" by (simp add: powi_of_int_nonneg)
  finally show ?thesis .
qed

lemma powi_53: "(2::rat) powi (e + 1) / 2 powi (e - 52) = of_int (2 ^ 53)"
proof -
  have "(2::rat) powi (e + 1) / 2 powi (e - 52) = 2 powi (e + 1 - (e - 52))"
    by (rule power_int_diff[symmetric]) simp
  also have "\<dots> = 2 powi 53" by simp
  also have "\<dots> = of_int (2 ^ 53)" by (simp add: powi_of_int_nonneg)
  finally show ?thesis .
qed

lemma round_double_mono_pos:
  assumes "0 < p" and "p \<le> q"
  shows "js_le (round_double p) (round_double q)"
proof -
  from assms have q: "0 < q" by simp
  define ep where "ep = max (floor_log2 p) (- 1022)"
  define eq where "eq = max (floor_log2 q) (- 1022)"
  define up :: rat where "up = 2 powi (ep - 52)"
  define uq :: rat where "uq = 2 powi (eq - 52)"
  define rp where "rp = of_int (round_half_even (p / up)) * up"
  define rq where "rq = of_int (round_half_even (q / uq)) * uq"
  have up: "0 < up" unfolding up_def by (rule zero_less_power_int) simp
  have uq: "0 < uq" unfolding uq_def by (rule zero_less_power_int) simp
  have le: "ep \<le> eq"
    unfolding ep_def eq_def using floor_log2_mono[OF assms] by simp
  have r: "rp \<le> rq"
  proof (cases "ep = eq")
    case True
    then have u: "up = uq" by (simp add: up_def uq_def)
    from assms(2) uq have "p / uq \<le> q / uq" by (simp add: divide_right_mono)
    then have "round_half_even (p / uq) \<le> round_half_even (q / uq)"
      by (rule round_half_even_mono)
    then have "(of_int (round_half_even (p / uq)) :: rat) \<le> of_int (round_half_even (q / uq))"
      by (rule iffD2[OF of_int_le_iff])
    with uq show ?thesis unfolding rp_def rq_def u by (simp add: mult_right_mono)
  next
    case False
    with le have lt: "ep < eq" by simp
    have "- 1022 \<le> ep" by (simp add: ep_def)
    with lt have "eq = floor_log2 q" by (simp add: eq_def)
    with floor_log2_bounds(1)[OF q] have "2 powi eq \<le> q" by simp
    with uq have "2 powi eq / uq \<le> q / uq" by (simp add: divide_right_mono)
    then have "of_int (2 ^ 52) \<le> q / uq" unfolding uq_def powi_52 .
    then have "round_half_even (of_int (2 ^ 52) :: rat) \<le> round_half_even (q / uq)"
      by (rule round_half_even_mono)
    then have "(2 ^ 52 :: int) \<le> round_half_even (q / uq)"
      by (simp add: round_half_even_numeral)
    then have "(of_int (2 ^ 52) :: rat) \<le> of_int (round_half_even (q / uq))"
      by (rule iffD2[OF of_int_le_iff])
    with uq have "of_int (2 ^ 52) * uq \<le> rq" unfolding rq_def by (simp add: mult_right_mono)
    moreover have "of_int (2 ^ 52) * uq = 2 powi eq"
      using powi_52[of eq] uq unfolding uq_def by (simp add: field_simps)
    ultimately have lo: "2 powi eq \<le> rq" by simp
    have "floor_log2 p + 1 \<le> ep + 1" by (simp add: ep_def)
    then have "(2::rat) powi (floor_log2 p + 1) \<le> 2 powi (ep + 1)"
      by (intro power_int_increasing) simp_all
    with floor_log2_bounds(2)[OF assms(1)] have "p \<le> 2 powi (ep + 1)" by simp
    with up have "p / up \<le> 2 powi (ep + 1) / up" by (simp add: divide_right_mono)
    then have "p / up \<le> of_int (2 ^ 53)" unfolding up_def powi_53 .
    then have "round_half_even (p / up) \<le> round_half_even (of_int (2 ^ 53) :: rat)"
      by (rule round_half_even_mono)
    then have "round_half_even (p / up) \<le> 2 ^ 53"
      by (simp add: round_half_even_numeral)
    then have "(of_int (round_half_even (p / up)) :: rat) \<le> of_int (2 ^ 53)"
      by (rule iffD2[OF of_int_le_iff])
    with up have "rp \<le> of_int (2 ^ 53) * up" unfolding rp_def by (simp add: mult_right_mono)
    moreover have "of_int (2 ^ 53) * up = 2 powi (ep + 1)"
      using powi_53[of ep] up unfolding up_def by (simp add: field_simps)
    ultimately have hi: "rp \<le> 2 powi (ep + 1)" by simp
    from lt have "ep + 1 \<le> eq" by simp
    then have "(2::rat) powi (ep + 1) \<le> 2 powi eq"
      by (intro power_int_increasing) simp_all
    with lo hi show ?thesis by simp
  qed
  have "round_double p = (if 2 powi 1024 \<le> rp then PosInfinity else Finite rp)"
    using assms(1) by (simp add: round_double_def Let_def rp_def up_def ep_def)
  moreover have "round_double q = (if 2 powi 1024 \<le> rq then PosInfinity else Finite rq)"
    using q by (simp add: round_double_def Let_def rq_def uq_def eq_def)
  ultimately show ?thesis using r by auto
qed

lemma js_le_trans: "js_le x y \<Longrightarrow> js_le y z \<Longrightarrow> js_le x z"
  by (cases x; cases y; cases z) simp_all

lemma js_le_neg: "js_le (js_neg x) (js_neg y) = js_le y x"
  by (cases x; cases y) simp_all

lemma round_double_mono:
  assumes "p \<le> q"
  shows "js_le (round_double p) (round_double q)"
proof -
  consider "0 < p" | "p \<le> 0" "0 \<le> q" | "q < 0" by linarith
  then show ?thesis
  proof cases
    case 1
    then show ?thesis using assms by (rule round_double_mono_pos)
  next
    case 2
    from round_double_nonpos[OF 2(1)] round_double_nonneg[OF 2(2)]
    show ?thesis by (rule js_le_trans)
  next
    case 3
    with assms have "0 < - q" "- q \<le> - p" by simp_all
    then have "js_le (round_double (- q)) (round_double (- p))"
      by (rule round_double_mono_pos)
    then show ?thesis by (simp only: round_double_minus js_le_neg)
  qed
qed

lemma round_double_1: "round_double 1 = Finite 1"
  by (rule round_double_pos[where e = 0]) (simp_all add: round_eval)

lemma round_double_100: "round_double 100 = Finite 100"
  by (rule round_double_pos[where e = 6]) (simp_all add: round_eval)


section \<open>Signs and NaN\<close>

lemma not_NaN_cases:
  assumes "x \<noteq> NaN"
  obtains a where "x = Finite a" | "x = PosInfinity" | "x = NegInfinity"
  using assms by (cases x) simp_all

lemma js_add_Finite_not_NaN: "x \<noteq> NaN \<Longrightarrow> js_add x (Finite b) \<noteq> NaN"
  by (cases x) simp_all

lemma foldl_js_add_not_NaN:
  "x \<noteq> NaN \<Longrightarrow> foldl (\<lambda>sum d. js_add sum (Finite (f d))) x xs \<noteq> NaN"
  by (induction xs arbitrary: x) (simp_all add: js_add_Finite_not_NaN)

lemma reduce_sum_not_NaN [simp]: "reduce_sum f xs \<noteq> NaN"
  unfolding reduce_sum_def by (rule foldl_js_add_not_NaN) simp

lemma js_sub_Finite_not_NaN: "y \<noteq> NaN \<Longrightarrow> js_sub (Finite a) y \<noteq> NaN"
  by (cases y) (simp_all add: js_sub_def)

lemma not_js_le_Finite: "x \<noteq> NaN \<Longrightarrow> (\<not> js_le (Finite a) x) = js_lt x (Finite a)"
  by (cases x) auto

lemma js_lt_imp_le: "js_lt x y \<Longrightarrow> js_le x y"
  by (cases x; cases y) simp_all

lemma js_le_Finite_trans: "a \<le> b \<Longrightarrow> js_le (Finite b) x \<Longrightarrow> js_le (Finite a) x"
  by (cases x) simp_all

lemma js_sub_nonneg:
  assumes "js_le (Finite b) x"
  shows "js_le (Finite 0) (js_sub x (Finite b))"
proof (cases x)
  case (Finite a)
  with assms have "0 \<le> a - b" by simp
  then have "js_le (Finite 0) (round_double (a - b))" by (rule round_double_nonneg)
  then show ?thesis by (simp add: Finite js_sub_def)
qed (use assms in \<open>simp_all add: js_sub_def\<close>)

lemma js_div_nonneg:
  assumes "js_le (Finite 0) x" and "js_le (Finite 0) y"
  shows "js_div x y = NaN \<or> js_le (Finite 0) (js_div x y)"
proof (cases x)
  case x: (Finite a)
  show ?thesis
  proof (cases y)
    case y: (Finite b)
    from assms have "0 \<le> a / b" by (simp add: x y)
    then have "js_le (Finite 0) (round_double (a / b))" by (rule round_double_nonneg)
    with assms show ?thesis by (auto simp: x y inf_signed_def)
  qed (use assms in \<open>simp_all add: x\<close>)
next
  case x: PosInfinity
  show ?thesis by (cases y) (use assms in \<open>simp_all add: x\<close>)
qed (use assms in simp_all)

lemma js_mul_100_nonneg:
  assumes "x = NaN \<or> js_le (Finite 0) x"
  shows "js_mul x (Finite 100) = NaN \<or> js_le (Finite 0) (js_mul x (Finite 100))"
proof (cases x)
  case (Finite a)
  with assms have "0 \<le> a * 100" by simp
  then have "js_le (Finite 0) (round_double (a * 100))" by (rule round_double_nonneg)
  then show ?thesis by (simp add: Finite)
qed (use assms in \<open>simp_all add: inf_signed_def\<close>)

lemma js_min_100_le: "js_min x (Finite 100) = NaN \<or> js_le (js_min x (Finite 100)) (Finite 100)"
  by (cases x) (simp_all add: js_min_def)

lemma js_min_100_nonneg:
  assumes "x = NaN \<or> js_le (Finite 0) x"
  shows "js_min x (Finite 100) = NaN \<or> js_le (Finite 0) (js_min x (Finite 100))"
  using assms by (cases x) (simp_all add: js_min_def)

lemma js_max_0_nonneg: "x \<noteq> NaN \<Longrightarrow> js_le (Finite 0) (js_max x (Finite 0))"
  by (cases x) (simp_all add: js_max_def)

lemma js_max_0_id:
  assumes "x = NaN \<or> js_le (Finite 0) x"
  shows "js_max (Finite 0) x = x"
  using assms by (cases x) (auto simp: js_max_def)

section \<open>Auxiliary facts\<close>

lemma userSalesData_filter:
  "userSalesData accs sales = filter (\<lambda>d. account_id d \<in> id_acc ` set accs) sales"
  unfolding userSalesData_def list_ex_iff
  by (rule filter_cong) (auto intro: rev_image_eqI)




text \<open>The two shapes of a non-null result.\<close>

lemma calc_unmatched:
  assumes "accs \<noteq> []" and "filter is_active rules \<noteq> []"
    and "find_bestRule (commissionRate accs sales) (filter is_active rules) = None"
  shows "calculateUserIncentive cu au uid accs sales rules =
           Some \<lparr> user_id = uid,
                  user_name = getUserName cu au uid,
                  total_revenue = totalRevenue accs sales,
                  total_commission = totalCommission accs sales,
                  commission_rate = commissionRate accs sales,
                  applicable_rule = None,
                  current_tier = None,
                  next_tier = None,
                  incentive_amount = Finite 0,
                  progress_percentage = Finite 0,
                  remaining_to_next_tier = Finite 0,
                  managed_accounts_count = length accs \<rparr>"
  using assms by (simp add: calculateUserIncentive_def)

lemma calc_matched:
  assumes "accs \<noteq> []"
    and "find_bestRule (commissionRate accs sales) (filter is_active rules) = Some r"
  shows "calculateUserIncentive cu au uid accs sales rules =
           Some \<lparr> user_id = uid,
                  user_name = getUserName cu au uid,
                  total_revenue = totalRevenue accs sales,
                  total_commission = totalCommission accs sales,
                  commission_rate = commissionRate accs sales,
                  applicable_rule = Some r,
                  current_tier =
                    fst (snd (tier_loop (qualifyingRevenue accs sales r) (sortedTiers r)
                                (Finite 0, None))),
                  next_tier =
                    snd (snd (tier_loop (qualifyingRevenue accs sales r) (sortedTiers r)
                                (Finite 0, None))),
                  incentive_amount =
                    fst (tier_loop (qualifyingRevenue accs sales r) (sortedTiers r)
                           (Finite 0, None)),
                  progress_percentage =
                    fst (progress r (qualifyingRevenue accs sales r)
                          (fst (snd (tier_loop (qualifyingRevenue accs sales r) (sortedTiers r)
                                       (Finite 0, None))))
                          (snd (snd (tier_loop (qualifyingRevenue accs sales r) (sortedTiers r)
                                       (Finite 0, None))))),
                  remaining_to_next_tier =
                    snd (progress r (qualifyingRevenue accs sales r)
                          (fst (snd (tier_loop (qualifyingRevenue accs sales r) (sortedTiers r)
                                       (Finite 0, None))))
                          (snd (snd (tier_loop (qualifyingRevenue accs sales r) (sortedTiers r)
                                       (Finite 0, None))))),
                  managed_accounts_count = length accs \<rparr>"
proof -
  from assms(2) have "filter is_active rules \<noteq> []" by auto
  with assms show ?thesis
    by (simp add: calculateUserIncentive_def Let_def split: prod.split)
qed

lemma calc_matched_fields:
  assumes "accs \<noteq> []"
    and "find_bestRule (commissionRate accs sales) (filter is_active rules) = Some r"
  obtains c where "calculateUserIncentive cu au uid accs sales rules = Some c"
    and "applicable_rule c = Some r"
    and "incentive_amount c =
           fst (tier_loop (qualifyingRevenue accs sales r) (sortedTiers r) (Finite 0, None))"
    and "current_tier c =
           fst (snd (tier_loop (qualifyingRevenue accs sales r) (sortedTiers r) (Finite 0, None)))"
    and "next_tier c =
           snd (snd (tier_loop (qualifyingRevenue accs sales r) (sortedTiers r) (Finite 0, None)))"
    and "progress_percentage c =
           fst (progress r (qualifyingRevenue accs sales r) (current_tier c) (next_tier c))"
    and "remaining_to_next_tier c =
           snd (progress r (qualifyingRevenue accs sales r) (current_tier c) (next_tier c))"
  using calc_matched[OF assms, of cu au uid] by simp


lemma calc_commission_rate:
  assumes "calculateUserIncentive cu au uid accs sales rules = Some c"
  shows "commission_rate c = commissionRate accs sales"
  using assms
  by (auto simp: calculateUserIncentive_def Let_def split: option.splits prod.splits if_splits)

lemma calc_None_iff:
  "calculateUserIncentive cu au uid accs sales rules = None
     \<longleftrightarrow> accs = [] \<or> filter is_active rules = []"
  by (simp add: calculateUserIncentive_def Let_def split: option.split prod.split)

lemma calc_Some_nonempty:
  assumes "calculateUserIncentive cu au uid accs sales rules = Some c"
  shows "accs \<noteq> []" and "filter is_active rules \<noteq> []"
  using assms calc_None_iff[of cu au uid accs sales rules] by auto

section \<open>Null results\<close>

text \<open>
  Claim C6. \<open>calculateUserIncentive\<close> returns null exactly when the user's account list
  is empty or no rule of the list is active; on every other input it returns a
  calculation.
\<close>

theorem null_result_iff:
  "calculateUserIncentive cu au uid accs sales rules = None
     \<longleftrightarrow> accs = [] \<or> filter is_active rules = []"
  by (simp add: calculateUserIncentive_def Let_def split: option.split prod.split)

theorem null_result_iff_witness:
  "calculateUserIncentive user1 [] ''u1'' [] [sale ''a1'' 100 7] [mk_rule True 0 100 0 0 []] = None
   \<and> calculateUserIncentive user1 [] ''u1'' [account1] [sale ''a1'' 100 7]
        [mk_rule False 0 100 0 0 []] = None
   \<and> calculateUserIncentive user1 [] ''u1'' [account1] [sale ''a1'' 100 7]
        [mk_rule True 0 100 0 0 []] \<noteq> None"
  using null_result_iff[of user1 "[]" "''u1''" "[]" "[sale ''a1'' 100 7]" "[mk_rule True 0 100 0 0 []]"]
    null_result_iff[of user1 "[]" "''u1''" "[account1]" "[sale ''a1'' 100 7]"
      "[mk_rule False 0 100 0 0 []]"]
    null_result_iff[of user1 "[]" "''u1''" "[account1]" "[sale ''a1'' 100 7]"
      "[mk_rule True 0 100 0 0 []]"]
  by (simp add: example_defs)

section \<open>Rule selection\<close>





section \<open>The tier walk\<close>

lemma tier_loop_next:
  "snd (snd (tier_loop qRev ts (a, cur))) =
     find (\<lambda>t. \<not> js_le (Finite (revenue_threshold t)) qRev) ts"
  by (induction ts arbitrary: a cur) auto

lemma tier_loop_current:
  "fst (snd (tier_loop qRev ts (a, cur))) =
     (case takeWhile (\<lambda>t. js_le (Finite (revenue_threshold t)) qRev) ts of
        [] \<Rightarrow> cur | p # ps \<Rightarrow> Some (last (p # ps)))"
  by (induction ts arbitrary: a cur) (auto split: list.splits)

lemma tier_loop_next_gt:
  assumes "snd (snd (tier_loop qRev ts (a, cur))) = Some n"
  shows "\<not> js_le (Finite (revenue_threshold n)) qRev"
  using assms unfolding tier_loop_next by (auto simp: find_Some_iff)

lemma tier_loop_current_le:
  assumes "fst (snd (tier_loop qRev ts (a, None))) = Some t"
  shows "js_le (Finite (revenue_threshold t)) qRev"
proof -
  let ?P = "\<lambda>t. js_le (Finite (revenue_threshold t)) qRev"
  from assms obtain p ps where tw: "takeWhile ?P ts = p # ps" and t: "t = last (p # ps)"
    unfolding tier_loop_current by (auto split: list.splits)
  have "last (p # ps) \<in> set (takeWhile ?P ts)"
    unfolding tw by (rule last_in_set) simp
  then show ?thesis
    unfolding t by (rule set_takeWhileD[THEN conjunct2])
qed

text \<open>
  Where no tier but the lowest has a threshold of \<open>0\<close>, the walk accrues the bands of
  the specification.
\<close>

lemma tierRevenue_spec:
  assumes "\<forall>n\<in>set rest. revenue_threshold n \<noteq> 0"
  shows "tierRevenue qRev t rest =
           js_sub
             (js_min qRev (case rest of [] \<Rightarrow> qRev | n # _ \<Rightarrow> Finite (revenue_threshold n)))
             (Finite (revenue_threshold t))"
  using assms by (cases rest) (simp_all add: tierRevenue_def)

lemma tier_loop_amount:
  assumes "\<forall>n\<in>set (tl ts). revenue_threshold n \<noteq> 0"
  shows "fst (tier_loop qRev ts (a, cur)) = spec_tier_accrual a qRev ts"
  using assms
proof (induction ts arbitrary: a cur)
  case Nil
  then show ?case by simp
next
  case (Cons t rest)
  have nz: "\<forall>n\<in>set rest. revenue_threshold n \<noteq> 0" using Cons.prems by simp
  then have "\<forall>n\<in>set (tl rest). revenue_threshold n \<noteq> 0"
    by (cases rest) simp_all
  from Cons.IH[OF this] tierRevenue_spec[OF nz] show ?case by simp
qed

text \<open>
  Claim C1. The walk departs from the bands of the specification where a tier after the
  lowest has a threshold of exactly \<open>0\<close>:
  \<^verbatim>\<open>sortedTiers[i + 1]?.revenue_threshold || qualifyingRevenue\<close> takes such a next
  threshold for a missing one, and the band of the tier before it runs up to the
  qualifying revenue. With the tiers (0, 50 percent) and (0, 25 percent) and a qualifying
  revenue of 1000 the incentive is 750, where the bands of the specification give 250;
  with the tiers (-100, 50 percent) and (0, 25 percent) it is 800, where they give 300.
  On the scenario of the specification, the tiers (0, 5 percent) and
  (1000000, 10 percent) with a revenue of 1500000, the incentive is 100000 as stated.
\<close>

theorem tier_walk_zero_threshold:
  "map_option incentive_amount
     (calculateUserIncentive user1 [] ''u1'' [account1] [sale ''a1'' 1000 500]
        [mk_rule True 0 100 0 0 [mk_tier 0 50, mk_tier 0 25]]) = Some (Finite 750)
   \<and> qualifyingRevenue [account1] [sale ''a1'' 1000 500]
        (mk_rule True 0 100 0 0 [mk_tier 0 50, mk_tier 0 25]) = Finite 1000
   \<and> sortedTiers (mk_rule True 0 100 0 0 [mk_tier 0 50, mk_tier 0 25])
        = [mk_tier 0 50, mk_tier 0 25]
   \<and> spec_tier_accrual (Finite 0) (Finite 1000) [mk_tier 0 50, mk_tier 0 25] = Finite 250
   \<and> map_option incentive_amount
     (calculateUserIncentive user1 [] ''u1'' [account1] [sale ''a1'' 1000 500]
        [mk_rule True 0 100 0 0 [mk_tier (- 100) 50, mk_tier 0 25]]) = Some (Finite 800)
   \<and> qualifyingRevenue [account1] [sale ''a1'' 1000 500]
        (mk_rule True 0 100 0 0 [mk_tier (- 100) 50, mk_tier 0 25]) = Finite 1000
   \<and> sortedTiers (mk_rule True 0 100 0 0 [mk_tier (- 100) 50, mk_tier 0 25])
        = [mk_tier (- 100) 50, mk_tier 0 25]
   \<and> spec_tier_accrual (Finite 0) (Finite 1000) [mk_tier (- 100) 50, mk_tier 0 25] = Finite 300
   \<and> map_option incentive_amount
     (calculateUserIncentive user1 [] ''u1'' [account1] [sale ''a1'' 1500000 150000]
        [mk_rule True 0 100 100000 0 [mk_tier 0 5, mk_tier 1000000 10]]) = Some (Finite 100000)
   \<and> map_option next_tier
     (calculateUserIncentive user1 [] ''u1'' [account1] [sale ''a1'' 1500000 150000]
        [mk_rule True 0 100 100000 0 [mk_tier 0 5, mk_tier 1000000 10]]) = Some None"
  by (simp add: calc_defs example_defs round_evals)

section \<open>The order of a rule's tiers\<close>

lemma filter_key_distinct:
  assumes "distinct (map f zs)" and "k \<in> set zs"
  shows "filter (\<lambda>x. f k = f x) zs = [k]"
  using assms
proof (induction zs)
  case Nil
  then show ?case by simp
next
  case (Cons z zs)
  show ?case
  proof (cases "k = z")
    case True
    have "filter (\<lambda>x. f z = f x) zs = []"
      using Cons.prems(1) by (auto simp: filter_empty_conv)
    with True show ?thesis by simp
  next
    case False
    with Cons.prems have k: "k \<in> set zs" and d: "distinct (map f zs)" by simp_all
    from Cons.prems(1) k have "f k \<noteq> f z" by (metis distinct.simps(2) imageI list.simps(9) set_map)
    with Cons.IH[OF d k] show ?thesis by simp
  qed
qed

lemma sort_key_permutation:
  assumes "mset ys = mset xs" and "distinct (map f xs)"
  shows "sort_key f ys = sort_key f xs"
proof -
  let ?s = "sort_key f xs"
  have m: "mset ?s = mset ys" using assms(1) by simp
  have "mset (map f ys) = mset (map f xs)" using assms(1) by simp
  then have dy: "distinct (map f ys)"
    using assms(2) mset_eq_imp_distinct_iff by blast
  have ds: "distinct (map f ?s)" using assms(2) by (simp add: distinct_map)
  have "filter (\<lambda>x. f k = f x) ?s = filter (\<lambda>x. f k = f x) ys" if "k \<in> set ?s" for k
  proof -
    from that m have "k \<in> set ys" using mset_eq_setD by blast
    from filter_key_distinct[OF ds that] filter_key_distinct[OF dy this]
    show ?thesis by simp
  qed
  from properties_for_sort_key[OF m this] show ?thesis by simp
qed

lemma find_bestRule_append:
  "find_bestRule rate (xs @ ys) =
     (case find_bestRule rate xs of None \<Rightarrow> find_bestRule rate ys | Some r \<Rightarrow> Some r)"
  by (induction xs) auto

lemma find_bestRule_head:
  assumes "find_bestRule rate [x] = Some x"
  shows "find_bestRule rate (x # xs) = Some x"
  using assms by (auto split: if_splits)

lemma qualifyingRevenue_tiers_update:
  "qualifyingRevenue accs sales (r\<lparr>tiers := ts\<rparr>) = qualifyingRevenue accs sales r"
  by (simp add: qualifyingRevenue_def qualifyingAccountIds_def)

lemma progress_tiers_update:
  "progress (r\<lparr>tiers := ts\<rparr>) q cur nxt = progress r q cur nxt"
  by (simp add: progress_def Let_def split: option.split)

text \<open>
  Claim C10, as the code has it. Let the matched rule's tiers be supplied in another
  order, their thresholds being pairwise distinct. Then every field of the returned
  calculation is the same, except \<open>applicable_rule\<close>, which is the rule as supplied,
  with its tiers in the supplied order: the walk runs on a sorted copy, and the rule
  itself is returned untouched.
\<close>

theorem tier_order_insensitive:
  assumes "accs \<noteq> []"
    and "find_bestRule (commissionRate accs sales) (filter is_active pre) = None"
    and "find_bestRule (commissionRate accs sales) (filter is_active [r]) = Some r"
    and "mset ts = mset (tiers r)"
    and "distinct (map revenue_threshold (tiers r))"
  shows "calculateUserIncentive cu au uid accs sales (pre @ r\<lparr>tiers := ts\<rparr> # post) =
           map_option (\<lambda>c. c\<lparr>applicable_rule := Some (r\<lparr>tiers := ts\<rparr>)\<rparr>)
             (calculateUserIncentive cu au uid accs sales (pre @ r # post))"
proof -
  let ?rate = "commissionRate accs sales"
  let ?r' = "r\<lparr>tiers := ts\<rparr>"
  from assms(3) have act: "is_active r" and hd: "find_bestRule ?rate [r] = Some r"
    by (auto split: if_splits)
  from act have act': "is_active ?r'" by simp
  from hd have hd': "find_bestRule ?rate [?r'] = Some ?r'"
    by (auto split: if_splits)
  have m: "find_bestRule ?rate (filter is_active (pre @ r # post)) = Some r"
    using assms(2) act find_bestRule_head[OF hd]
    by (simp add: find_bestRule_append del: find_bestRule.simps)
  have m': "find_bestRule ?rate (filter is_active (pre @ ?r' # post)) = Some ?r'"
    using assms(2) act' find_bestRule_head[OF hd']
    by (simp add: find_bestRule_append del: find_bestRule.simps)
  have s: "sortedTiers ?r' = sortedTiers r"
    using sort_key_permutation[OF assms(4,5)] by (simp add: sortedTiers_def)
  show ?thesis
    unfolding calc_matched[OF assms(1) m] calc_matched[OF assms(1) m']
    by (simp add: s qualifyingRevenue_tiers_update progress_tiers_update)
qed

text \<open>
  The two calculations are not identical as wholes: \<open>applicable_rule\<close> carries the
  tiers in the order in which each input supplies them.
\<close>

theorem tier_order_insensitive_counterexample:
  "calculateUserIncentive user1 [] ''u1'' [account1] [sale ''a1'' 1500 150]
     [mk_rule True 0 100 0 0 [mk_tier 1000 10, mk_tier 0 5]]
   \<noteq> calculateUserIncentive user1 [] ''u1'' [account1] [sale ''a1'' 1500 150]
     [mk_rule True 0 100 0 0 [mk_tier 0 5, mk_tier 1000 10]]"
proof
  assume "calculateUserIncentive user1 [] ''u1'' [account1] [sale ''a1'' 1500 150]
     [mk_rule True 0 100 0 0 [mk_tier 1000 10, mk_tier 0 5]]
   = calculateUserIncentive user1 [] ''u1'' [account1] [sale ''a1'' 1500 150]
     [mk_rule True 0 100 0 0 [mk_tier 0 5, mk_tier 1000 10]]"
  then have "map_option applicable_rule
      (calculateUserIncentive user1 [] ''u1'' [account1] [sale ''a1'' 1500 150]
        [mk_rule True 0 100 0 0 [mk_tier 1000 10, mk_tier 0 5]])
   = map_option applicable_rule
      (calculateUserIncentive user1 [] ''u1'' [account1] [sale ''a1'' 1500 150]
        [mk_rule True 0 100 0 0 [mk_tier 0 5, mk_tier 1000 10]])"
    by simp
  then show False
    by (simp add: calc_defs example_defs round_evals)
qed

theorem tier_order_insensitive_witness:
  "calculateUserIncentive user1 [] ''u1'' [account1] [sale ''a1'' 1500 150]
     [mk_rule True 50 100 0 0 [], mk_rule True 0 100 0 0 [mk_tier 1000 10, mk_tier 0 5]]
   = map_option
       (\<lambda>c. c\<lparr>applicable_rule :=
                 Some (mk_rule True 0 100 0 0 [mk_tier 1000 10, mk_tier 0 5])\<rparr>)
       (calculateUserIncentive user1 [] ''u1'' [account1] [sale ''a1'' 1500 150]
          [mk_rule True 50 100 0 0 [], mk_rule True 0 100 0 0 [mk_tier 0 5, mk_tier 1000 10]])"
proof -
  let ?s = "[sale ''a1'' 1500 150]"
  let ?r = "mk_rule True 0 100 0 0 [mk_tier 0 5, mk_tier 1000 10]"
  have a: "[account1] \<noteq> []" by simp
  have b: "find_bestRule (commissionRate [account1] ?s)
             (filter is_active [mk_rule True 50 100 0 0 []]) = None"
    by (simp add: calc_defs example_defs round_evals)
  have c: "find_bestRule (commissionRate [account1] ?s) (filter is_active [?r]) = Some ?r"
    by (simp add: calc_defs example_defs round_evals)
  have d: "mset [mk_tier 1000 10, mk_tier 0 5] = mset (tiers ?r)"
    by (simp add: mk_rule_def)
  have e: "distinct (map revenue_threshold (tiers ?r))"
    by (simp add: mk_rule_def mk_tier_def)
  have u: "?r\<lparr>tiers := [mk_tier 1000 10, mk_tier 0 5]\<rparr>
             = mk_rule True 0 100 0 0 [mk_tier 1000 10, mk_tier 0 5]"
    by (simp add: mk_rule_def)
  from tier_order_insensitive[OF a b c d e, of user1 "[]" "''u1''" "[]"]
  show ?thesis unfolding u by simp
qed

section \<open>Qualifying accounts\<close>

lemma reduce_sum_map: "reduce_sum f xs = reduce_sum (\<lambda>v. v) (map f xs)"
  by (simp add: reduce_sum_def foldl_map)

lemma reduce_sum_cong_map: "map f xs = map g ys \<Longrightarrow> reduce_sum f xs = reduce_sum g ys"
  using reduce_sum_map[of f xs] reduce_sum_map[of g ys] by simp

lemma fold_insert_if:
  "fold (\<lambda>acc ids. if P acc then insert (f acc) ids else ids) xs S
     = S \<union> f ` {a \<in> set xs. P a}"
  by (induction xs arbitrary: S) auto

lemma accountCommission_own_rows:
  assumes "acc \<in> set accs"
  shows "accountCommission (userSalesData accs sales) acc =
           reduce_sum gross_commission (filter (\<lambda>d. account_id d = id_acc acc) sales)"
proof -
  have "filter (\<lambda>d. account_id d = id_acc acc) (userSalesData accs sales)
          = filter (\<lambda>d. account_id d = id_acc acc) sales"
    unfolding userSalesData_filter filter_filter
    using assms by (intro filter_cong) auto
  then show ?thesis
    by (simp add: accountCommission_def)
qed

lemma qualifyingAccountIds_spec:
  "qualifyingAccountIds accs sales r = id_acc ` {a \<in> set accs. spec_qualifies sales r a}"
proof -
  have "{a \<in> set accs. js_le (Finite (min_commission_threshold r))
                          (accountCommission (userSalesData accs sales) a)}
        = {a \<in> set accs. spec_qualifies sales r a}"
    by (auto simp: accountCommission_own_rows spec_qualifies_def)
  then show ?thesis
    by (simp add: qualifyingAccountIds_def fold_insert_if)
qed

lemma qualifyingRevenue_spec:
  "qualifyingRevenue accs sales r = spec_qualifyingRevenue accs sales r"
proof -
  have "filter (\<lambda>d. account_id d \<in> qualifyingAccountIds accs sales r) (userSalesData accs sales)
        = filter (\<lambda>d. \<exists>acc\<in>set accs. id_acc acc = account_id d \<and> spec_qualifies sales r acc) sales"
  proof -
    have "(account_id d \<in> id_acc ` set accs
            \<and> account_id d \<in> id_acc ` {a \<in> set accs. spec_qualifies sales r a})
          = (\<exists>acc\<in>set accs. id_acc acc = account_id d \<and> spec_qualifies sales r acc)" for d :: sales_data
      by (auto simp: image_iff) metis+
    then show ?thesis
      unfolding userSalesData_filter filter_filter qualifyingAccountIds_spec by simp
  qed
  then show ?thesis
    by (simp add: qualifyingRevenue_def spec_qualifyingRevenue_def)
qed

lemma spec_qualifies_reprice:
  assumes "\<forall>d. account_id (g d) = account_id d \<and> gross_commission (g d) = gross_commission d"
  shows "spec_qualifies (map g sales) r b = spec_qualifies sales r b"
proof -
  have "map gross_commission (filter (\<lambda>d. account_id d = id_acc b) (map g sales))
        = map gross_commission (filter (\<lambda>d. account_id d = id_acc b) sales)"
    using assms by (induction sales) simp_all
  then have "reduce_sum gross_commission (filter (\<lambda>d. account_id d = id_acc b) (map g sales))
        = reduce_sum gross_commission (filter (\<lambda>d. account_id d = id_acc b) sales)"
    by (rule reduce_sum_cong_map)
  then show ?thesis by (simp add: spec_qualifies_def)
qed

lemma filter_map_fixed:
  assumes "\<forall>d. Q (g d) = Q d" and "\<forall>d. Q d \<longrightarrow> g d = d"
  shows "filter Q (map g xs) = filter Q xs"
  using assms by (induction xs) auto

lemma spec_qualifies_id:
  "id_acc a = id_acc b \<Longrightarrow> spec_qualifies sales r a = spec_qualifies sales r b"
  by (simp add: spec_qualifies_def)

lemma spec_qualifyingRevenue_reprice:
  assumes "a \<in> set accs" and "\<not> spec_qualifies sales r a"
  shows "spec_qualifyingRevenue accs
           (map (\<lambda>d. if account_id d = id_acc a then d\<lparr>total_purchases := x\<rparr> else d) sales) r
         = spec_qualifyingRevenue accs sales r"
proof -
  let ?g = "\<lambda>d :: sales_data. if account_id d = id_acc a then d\<lparr>total_purchases := x\<rparr> else d"
  let ?Q = "\<lambda>d :: sales_data. \<exists>acc\<in>set accs. id_acc acc = account_id d \<and> spec_qualifies sales r acc"
  have g: "\<forall>d. account_id (?g d) = account_id d \<and> gross_commission (?g d) = gross_commission d"
    by simp
  have keep: "?g d = d" if "?Q d" for d :: sales_data
  proof -
    from that obtain acc where "acc \<in> set accs" "id_acc acc = account_id d"
      "spec_qualifies sales r acc" by blast
    with assms(2) spec_qualifies_id[of acc a sales r] have "account_id d \<noteq> id_acc a"
      by auto
    then show ?thesis by simp
  qed
  have "filter (\<lambda>d. \<exists>acc\<in>set accs. id_acc acc = account_id d \<and>
                     spec_qualifies (map ?g sales) r acc) (map ?g sales)
        = filter ?Q sales"
  proof -
    have h1: "\<forall>d. ?Q (?g d) = ?Q d" by simp
    have h2: "\<forall>d. ?Q d \<longrightarrow> ?g d = d" using keep by blast
    show ?thesis
      unfolding spec_qualifies_reprice[OF g] filter_map_fixed[of ?Q ?g, OF h1 h2] ..
  qed
  then show ?thesis
    unfolding spec_qualifyingRevenue_def by simp
qed

lemma qualifies_iff:
  assumes "a \<in> set accs"
  shows "id_acc a \<in> qualifyingAccountIds accs sales r \<longleftrightarrow> spec_qualifies sales r a"
proof
  assume "id_acc a \<in> qualifyingAccountIds accs sales r"
  then obtain b where "b \<in> set accs" "spec_qualifies sales r b" "id_acc a = id_acc b"
    unfolding qualifyingAccountIds_spec by blast
  then show "spec_qualifies sales r a"
    using spec_qualifies_id[of a b sales r] by simp
next
  assume "spec_qualifies sales r a"
  with assms show "id_acc a \<in> qualifyingAccountIds accs sales r"
    unfolding qualifyingAccountIds_spec by blast
qed

text \<open>
  Claim C3. Under a matched rule, an account of the user qualifies exactly when the sum
  of \<open>gross_commission\<close> over the sales rows carrying its id is at least the rule's
  \<open>min_commission_threshold\<close>, and the qualifying revenue is the sum of
  \<open>total_purchases\<close> over the rows of qualifying accounts only: whatever the
  \<open>total_purchases\<close> of the rows of a non-qualifying account are changed to, the
  qualifying revenue stays the same. The tier walk of the calculation runs on this
  qualifying revenue. Both sums are the component's: the rows are added in their order,
  in double arithmetic (\<open>reduce_sum\<close>), so that ten rows with a commission of 0.1 add up
  to the double below 1 and miss a threshold of 1.
\<close>

theorem qualifying_accounts:
  assumes "accs \<noteq> []"
    and "find_bestRule (commissionRate accs sales) (filter is_active rules) = Some r"
  shows "(\<forall>a\<in>set accs.
            id_acc a \<in> qualifyingAccountIds accs sales r \<longleftrightarrow>
            js_le (Finite (min_commission_threshold r))
              (reduce_sum gross_commission (filter (\<lambda>d. account_id d = id_acc a) sales)))
         \<and> qualifyingRevenue accs sales r =
             reduce_sum total_purchases
               (filter (\<lambda>d. account_id d \<in> qualifyingAccountIds accs sales r) sales)
         \<and> (\<forall>a\<in>set accs. id_acc a \<notin> qualifyingAccountIds accs sales r \<longrightarrow>
               (\<forall>x. qualifyingRevenue accs
                      (map (\<lambda>d. if account_id d = id_acc a then d\<lparr>total_purchases := x\<rparr> else d)
                         sales) r
                    = qualifyingRevenue accs sales r))
         \<and> (\<exists>c. calculateUserIncentive cu au uid accs sales rules = Some c
                \<and> applicable_rule c = Some r
                \<and> incentive_amount c =
                    fst (tier_loop (qualifyingRevenue accs sales r) (sortedTiers r)
                           (Finite 0, None)))"
proof (intro conjI ballI impI allI)
  fix a assume "a \<in> set accs"
  then show "id_acc a \<in> qualifyingAccountIds accs sales r \<longleftrightarrow>
            js_le (Finite (min_commission_threshold r))
              (reduce_sum gross_commission (filter (\<lambda>d. account_id d = id_acc a) sales))"
    by (simp add: qualifies_iff spec_qualifies_def)
next
  have "(account_id d \<in> qualifyingAccountIds accs sales r)
          = (\<exists>acc\<in>set accs. id_acc acc = account_id d \<and> spec_qualifies sales r acc)"
    for d :: sales_data
    unfolding qualifyingAccountIds_spec by (auto simp: image_iff)
  then show "qualifyingRevenue accs sales r =
             reduce_sum total_purchases
               (filter (\<lambda>d. account_id d \<in> qualifyingAccountIds accs sales r) sales)"
    by (simp add: qualifyingRevenue_spec spec_qualifyingRevenue_def)
next
  fix a x assume "a \<in> set accs" "id_acc a \<notin> qualifyingAccountIds accs sales r"
  then have "\<not> spec_qualifies sales r a" by (simp add: qualifies_iff)
  from spec_qualifyingRevenue_reprice[OF \<open>a \<in> set accs\<close> this]
  show "qualifyingRevenue accs
          (map (\<lambda>d. if account_id d = id_acc a then d\<lparr>total_purchases := x\<rparr> else d) sales) r
        = qualifyingRevenue accs sales r"
    by (simp add: qualifyingRevenue_spec)
next
  show "\<exists>c. calculateUserIncentive cu au uid accs sales rules = Some c
                \<and> applicable_rule c = Some r
                \<and> incentive_amount c =
                    fst (tier_loop (qualifyingRevenue accs sales r) (sortedTiers r)
                           (Finite 0, None))"
    by (simp add: calc_matched[OF assms])
qed

theorem qualifying_accounts_witness:
  "qualifyingRevenue [account1, account2]
     [sale ''a1'' 1024 96, sale ''a2'' 6656 0, sale ''a1'' 512 32]
     (mk_rule True 0 100 50 0 [mk_tier 0 50]) = Finite 1536
   \<and> ''a1'' \<in> qualifyingAccountIds [account1, account2]
        [sale ''a1'' 1024 96, sale ''a2'' 6656 0, sale ''a1'' 512 32]
        (mk_rule True 0 100 50 0 [mk_tier 0 50])
   \<and> ''a2'' \<notin> qualifyingAccountIds [account1, account2]
        [sale ''a1'' 1024 96, sale ''a2'' 6656 0, sale ''a1'' 512 32]
        (mk_rule True 0 100 50 0 [mk_tier 0 50])
   \<and> ''a1'' \<notin> qualifyingAccountIds [account1]
        (replicate 10 (sale ''a1'' 5000 (3602879701896397 / 36028797018963968)))
        (mk_rule True 0 100 1 0 [mk_tier 0 50])"
proof -
  let ?accs = "[account1, account2]"
  let ?sales = "[sale ''a1'' 1024 96, sale ''a2'' 6656 0, sale ''a1'' 512 32]"
  let ?r = "mk_rule True 0 100 50 0 [mk_tier 0 50]"
  let ?sales' = "replicate 10 (sale ''a1'' 5000 (3602879701896397 / 36028797018963968))"
  let ?r' = "mk_rule True 0 100 1 0 [mk_tier 0 50]"
  have a: "?accs \<noteq> []" by simp
  have b: "find_bestRule (commissionRate ?accs ?sales) (filter is_active [?r]) = Some ?r"
    by (simp add: calc_defs example_defs round_evals)
  note t = qualifying_accounts[OF a b, of user1 "[]" "''u1''"]
  have i1: "account1 \<in> set ?accs" and i2: "account2 \<in> set ?accs" by simp_all
  from t[THEN conjunct1, THEN bspec, OF i1]
  have q1: "id_acc account1 \<in> qualifyingAccountIds ?accs ?sales ?r \<longleftrightarrow>
            js_le (Finite (min_commission_threshold ?r))
              (reduce_sum gross_commission
                 (filter (\<lambda>d. account_id d = id_acc account1) ?sales))" .
  from t[THEN conjunct1, THEN bspec, OF i2]
  have q2: "id_acc account2 \<in> qualifyingAccountIds ?accs ?sales ?r \<longleftrightarrow>
            js_le (Finite (min_commission_threshold ?r))
              (reduce_sum gross_commission
                 (filter (\<lambda>d. account_id d = id_acc account2) ?sales))" .
  have m1: "''a1'' \<in> qualifyingAccountIds ?accs ?sales ?r"
    using q1 by (simp add: example_defs reduce_sum_def round_evals)
  have m2: "''a2'' \<notin> qualifyingAccountIds ?accs ?sales ?r"
    using q2 by (simp add: example_defs reduce_sum_def round_evals)
  from t have "qualifyingRevenue ?accs ?sales ?r =
             reduce_sum total_purchases
               (filter (\<lambda>d. account_id d \<in> qualifyingAccountIds ?accs ?sales ?r) ?sales)"
    by (rule conjunct2[THEN conjunct1])
  also have "\<dots> = Finite 1536"
    using m1 m2 by (simp add: sale_def reduce_sum_def round_evals)
  finally have m3: "qualifyingRevenue ?accs ?sales ?r = Finite 1536" .
  have a': "[account1] \<noteq> []" by simp
  have s': "?sales' = [sale ''a1'' 5000 (3602879701896397 / 36028797018963968),
      sale ''a1'' 5000 (3602879701896397 / 36028797018963968),
      sale ''a1'' 5000 (3602879701896397 / 36028797018963968),
      sale ''a1'' 5000 (3602879701896397 / 36028797018963968),
      sale ''a1'' 5000 (3602879701896397 / 36028797018963968),
      sale ''a1'' 5000 (3602879701896397 / 36028797018963968),
      sale ''a1'' 5000 (3602879701896397 / 36028797018963968),
      sale ''a1'' 5000 (3602879701896397 / 36028797018963968),
      sale ''a1'' 5000 (3602879701896397 / 36028797018963968),
      sale ''a1'' 5000 (3602879701896397 / 36028797018963968)]"
    by (simp add: numeral_eq_Suc)
  have b': "find_bestRule (commissionRate [account1] ?sales') (filter is_active [?r']) = Some ?r'"
    unfolding s' by (simp add: calc_defs example_defs round_evals)
  have i': "account1 \<in> set [account1]" by simp
  from qualifying_accounts[OF a' b', of user1 "[]" "''u1''", THEN conjunct1, THEN bspec, OF i']
  have "id_acc account1 \<in> qualifyingAccountIds [account1] ?sales' ?r' \<longleftrightarrow>
            js_le (Finite (min_commission_threshold ?r'))
              (reduce_sum gross_commission
                 (filter (\<lambda>d. account_id d = id_acc account1) ?sales'))" .
  then have m4: "''a1'' \<notin> qualifyingAccountIds [account1] ?sales' ?r'"
    unfolding s' by (simp add: example_defs reduce_sum_def round_evals)
  from m1 m2 m3 m4 show ?thesis by simp
qed

section \<open>Progress to the next tier\<close>

lemma js_le_lt_Finite:
  assumes "js_le (Finite c) x" and "\<not> js_le (Finite n) x" and "x \<noteq> NaN"
  shows "c \<le> n"
  using assms by (cases x) simp_all

lemma progress_remaining:
  "snd (progress r qRev cur (Some n)) = js_max (js_sub (Finite (revenue_threshold n)) qRev) (Finite 0)"
  by (simp add: progress_def Let_def)

lemma progress_tier:
  assumes "revenue_threshold t \<noteq> 0 \<or> base_revenue_threshold r = 0"
  shows "fst (progress r qRev (Some t) (Some n)) =
           js_min
             (js_mul
                (js_div (js_sub qRev (Finite (revenue_threshold t)))
                   (js_sub (Finite (revenue_threshold n)) (Finite (revenue_threshold t))))
                (Finite 100))
             (Finite 100)"
  using assms by (auto simp: progress_def Let_def)

lemma progress_base:
  "fst (progress r qRev None (Some n)) =
     js_min
       (js_mul
          (js_div (js_sub qRev (Finite (base_revenue_threshold r)))
             (js_sub (Finite (revenue_threshold n)) (Finite (base_revenue_threshold r))))
          (Finite 100))
       (Finite 100)"
  by (simp add: progress_def Let_def)

text \<open>From a threshold at or below the revenue, the percentage is not negative.\<close>

lemma progress_from_threshold:
  assumes "js_le (Finite cT) qRev" and "\<not> js_le (Finite nT) qRev" and "qRev \<noteq> NaN"
  shows "js_min (js_mul (js_div (js_sub qRev (Finite cT)) (js_sub (Finite nT) (Finite cT)))
                   (Finite 100)) (Finite 100) = NaN
         \<or> js_le (Finite 0)
              (js_min (js_mul (js_div (js_sub qRev (Finite cT)) (js_sub (Finite nT) (Finite cT)))
                         (Finite 100)) (Finite 100))"
proof -
  have p: "js_le (Finite 0) (js_sub qRev (Finite cT))"
    using assms(1) by (rule js_sub_nonneg)
  from assms have "cT \<le> nT" by (rule js_le_lt_Finite)
  then have "js_le (Finite cT) (Finite nT)" by simp
  then have d: "js_le (Finite 0) (js_sub (Finite nT) (Finite cT))"
    by (rule js_sub_nonneg)
  show ?thesis
    by (intro js_min_100_nonneg js_mul_100_nonneg js_div_nonneg p d)
qed

lemma progress_le_100:
  "fst (progress r qRev cur nxt) = NaN \<or> js_le (fst (progress r qRev cur nxt)) (Finite 100)"
proof (cases nxt)
  case None
  then show ?thesis by (simp add: progress_def split: option.split)
next
  case (Some n)
  then show ?thesis
    using js_min_100_le by (simp add: progress_def Let_def)
qed

lemma progress_remaining_nonneg:
  assumes "qRev \<noteq> NaN"
  shows "js_le (Finite 0) (snd (progress r qRev cur nxt))"
proof (cases nxt)
  case None
  then show ?thesis by (simp add: progress_def split: option.split)
next
  case (Some n)
  from assms have "js_sub (Finite (revenue_threshold n)) qRev \<noteq> NaN"
    by (rule js_sub_Finite_not_NaN)
  then show ?thesis
    unfolding Some progress_remaining by (rule js_max_0_nonneg)
qed

lemma qualifyingRevenue_not_NaN [simp]: "qualifyingRevenue accs sales r \<noteq> NaN"
  by (simp add: qualifyingRevenue_def)

text \<open>
  Claim C4, as the code has it. Whenever a next tier exists, \<open>remaining_to_next_tier\<close> is
  \<open>max (nextThreshold - qualifyingRevenue) 0\<close>, and \<open>progress_percentage\<close> is
  \<open>(qualifyingRevenue - currentThreshold) / (nextThreshold - currentThreshold) * 100\<close>,
  every operation in the component's double arithmetic: clamped to the interval from 0
  to 100 with \<open>currentThreshold\<close> the matched tier's threshold, when a tier matched whose
  threshold is not \<open>0\<close> or the rule's base threshold is \<open>0\<close>; capped at 100 from above
  only, with \<open>currentThreshold\<close> the rule's \<open>base_revenue_threshold\<close>, when no tier
  matched. When there is no next tier but a current tier, \<open>next_tier\<close> is null, the
  progress is 100 and nothing remains.
\<close>

theorem progress_to_next_tier:
  assumes "accs \<noteq> []"
    and "find_bestRule (commissionRate accs sales) (filter is_active rules) = Some r"
  shows "\<exists>c. calculateUserIncentive cu au uid accs sales rules = Some c \<and>
           (\<forall>n. next_tier c = Some n \<longrightarrow>
                remaining_to_next_tier c
                  = js_max (js_sub (Finite (revenue_threshold n))
                              (qualifyingRevenue accs sales r)) (Finite 0)
              \<and> (\<forall>t. current_tier c = Some t \<and>
                     (revenue_threshold t \<noteq> 0 \<or> base_revenue_threshold r = 0) \<longrightarrow>
                    progress_percentage c =
                      js_max (Finite 0)
                        (js_min
                           (js_mul
                              (js_div
                                 (js_sub (qualifyingRevenue accs sales r)
                                    (Finite (revenue_threshold t)))
                                 (js_sub (Finite (revenue_threshold n))
                                    (Finite (revenue_threshold t))))
                              (Finite 100))
                           (Finite 100)))
              \<and> (current_tier c = None \<longrightarrow>
                    progress_percentage c =
                      js_min
                        (js_mul
                           (js_div
                              (js_sub (qualifyingRevenue accs sales r)
                                 (Finite (base_revenue_threshold r)))
                              (js_sub (Finite (revenue_threshold n))
                                 (Finite (base_revenue_threshold r))))
                           (Finite 100))
                        (Finite 100)))
         \<and> (next_tier c = None \<and> current_tier c \<noteq> None \<longrightarrow>
                progress_percentage c = Finite 100 \<and> remaining_to_next_tier c = Finite 0)"
proof -
  let ?q = "qualifyingRevenue accs sales r"
  from assms obtain c where c: "calculateUserIncentive cu au uid accs sales rules = Some c"
    and cur: "current_tier c = fst (snd (tier_loop ?q (sortedTiers r) (Finite 0, None)))"
    and nxt: "next_tier c = snd (snd (tier_loop ?q (sortedTiers r) (Finite 0, None)))"
    and pp: "progress_percentage c = fst (progress r ?q (current_tier c) (next_tier c))"
    and rem: "remaining_to_next_tier c = snd (progress r ?q (current_tier c) (next_tier c))"
    by (rule calc_matched_fields)
  have a: "remaining_to_next_tier c
             = js_max (js_sub (Finite (revenue_threshold n)) ?q) (Finite 0)"
    if "next_tier c = Some n" for n
    using rem that by (simp add: progress_remaining)
  have b: "progress_percentage c =
             js_max (Finite 0)
               (js_min
                  (js_mul
                     (js_div (js_sub ?q (Finite (revenue_threshold t)))
                        (js_sub (Finite (revenue_threshold n)) (Finite (revenue_threshold t))))
                     (Finite 100))
                  (Finite 100))"
    if "next_tier c = Some n" "current_tier c = Some t"
       "revenue_threshold t \<noteq> 0 \<or> base_revenue_threshold r = 0" for n t
  proof -
    have gt: "\<not> js_le (Finite (revenue_threshold n)) ?q"
      using that(1) nxt tier_loop_next_gt by metis
    have le: "js_le (Finite (revenue_threshold t)) ?q"
      using that(2) cur tier_loop_current_le by metis
    have e: "progress_percentage c =
               js_min
                 (js_mul
                    (js_div (js_sub ?q (Finite (revenue_threshold t)))
                       (js_sub (Finite (revenue_threshold n)) (Finite (revenue_threshold t))))
                    (Finite 100))
                 (Finite 100)"
      using pp that(1,2) progress_tier[OF that(3)] by simp
    from progress_from_threshold[OF le gt qualifyingRevenue_not_NaN]
    show ?thesis unfolding e by (rule js_max_0_id[symmetric])
  qed
  have d: "progress_percentage c =
             js_min
               (js_mul
                  (js_div (js_sub ?q (Finite (base_revenue_threshold r)))
                     (js_sub (Finite (revenue_threshold n)) (Finite (base_revenue_threshold r))))
                  (Finite 100))
               (Finite 100)"
    if "next_tier c = Some n" "current_tier c = None" for n
    using progress_base[of r ?q n] pp that by simp
  have e: "progress_percentage c = Finite 100 \<and> remaining_to_next_tier c = Finite 0"
    if "next_tier c = None" "current_tier c \<noteq> None"
    using pp rem that by (auto simp: progress_def)
  show ?thesis
  proof (intro exI[of _ c] conjI allI impI)
    show "calculateUserIncentive cu au uid accs sales rules = Some c" by (rule c)
  next
    fix n assume "next_tier c = Some n"
    then show "remaining_to_next_tier c
                 = js_max (js_sub (Finite (revenue_threshold n)) ?q) (Finite 0)"
      by (rule a)
  next
    fix n t assume "next_tier c = Some n"
      "current_tier c = Some t \<and> (revenue_threshold t \<noteq> 0 \<or> base_revenue_threshold r = 0)"
    then show "progress_percentage c =
             js_max (Finite 0)
               (js_min
                  (js_mul
                     (js_div (js_sub ?q (Finite (revenue_threshold t)))
                        (js_sub (Finite (revenue_threshold n)) (Finite (revenue_threshold t))))
                     (Finite 100))
                  (Finite 100))"
      using b[of n t] by simp
  next
    fix n assume "next_tier c = Some n" "current_tier c = None"
    then show "progress_percentage c =
             js_min
               (js_mul
                  (js_div (js_sub ?q (Finite (base_revenue_threshold r)))
                     (js_sub (Finite (revenue_threshold n)) (Finite (base_revenue_threshold r))))
                  (Finite 100))
               (Finite 100)"
      by (rule d)
  next
    assume "next_tier c = None \<and> current_tier c \<noteq> None"
    then show "progress_percentage c = Finite 100" using e by simp
  next
    assume "next_tier c = None \<and> current_tier c \<noteq> None"
    then show "remaining_to_next_tier c = Finite 0" using e by simp
  qed
qed

text \<open>
  The claim as stated fails twice. With no tier matched and a base threshold above the
  qualifying revenue the percentage is negative, there being no lower clamp (\<open>-50\<close>
  where the clamp gives \<open>0\<close>). With the matched tier's threshold \<open>0\<close>,
  \<^verbatim>\<open>currentTier?.revenue_threshold || bestRule.base_revenue_threshold\<close> takes the base
  threshold although a tier matched (\<open>-50\<close> where the claim gives \<open>25\<close>).
\<close>

theorem progress_to_next_tier_counterexample:
  "map_option current_tier
     (calculateUserIncentive user1 [] ''u1'' [account1] [sale ''a1'' 500 250]
        [mk_rule True 0 100 0 1000 [mk_tier 2000 25]]) = Some None
   \<and> map_option next_tier
     (calculateUserIncentive user1 [] ''u1'' [account1] [sale ''a1'' 500 250]
        [mk_rule True 0 100 0 1000 [mk_tier 2000 25]]) = Some (Some (mk_tier 2000 25))
   \<and> map_option progress_percentage
     (calculateUserIncentive user1 [] ''u1'' [account1] [sale ''a1'' 500 250]
        [mk_rule True 0 100 0 1000 [mk_tier 2000 25]]) = Some (Finite (- 50))
   \<and> js_max (Finite 0)
        (js_min (js_mul (js_div (js_sub (Finite 500) (Finite 1000))
                           (js_sub (Finite 2000) (Finite 1000))) (Finite 100)) (Finite 100))
       = Finite 0
   \<and> map_option current_tier
     (calculateUserIncentive user1 [] ''u1'' [account1] [sale ''a1'' 1000 500]
        [mk_rule True 0 100 0 2000 [mk_tier 0 50, mk_tier 4000 25]])
       = Some (Some (mk_tier 0 50))
   \<and> map_option next_tier
     (calculateUserIncentive user1 [] ''u1'' [account1] [sale ''a1'' 1000 500]
        [mk_rule True 0 100 0 2000 [mk_tier 0 50, mk_tier 4000 25]])
       = Some (Some (mk_tier 4000 25))
   \<and> map_option progress_percentage
     (calculateUserIncentive user1 [] ''u1'' [account1] [sale ''a1'' 1000 500]
        [mk_rule True 0 100 0 2000 [mk_tier 0 50, mk_tier 4000 25]])
       = Some (Finite (- 50))
   \<and> js_max (Finite 0)
        (js_min (js_mul (js_div (js_sub (Finite 1000) (Finite 0))
                           (js_sub (Finite 4000) (Finite 0))) (Finite 100)) (Finite 100))
       = Finite 25"
  by (simp add: calc_defs example_defs round_evals)

theorem progress_to_next_tier_witness:
  "map_option progress_percentage
     (calculateUserIncentive user1 [] ''u1'' [account1] [sale ''a1'' 1000 500]
        [mk_rule True 0 100 0 0 [mk_tier 2500 25, mk_tier 500 50]]) = Some (Finite 25)
   \<and> map_option remaining_to_next_tier
     (calculateUserIncentive user1 [] ''u1'' [account1] [sale ''a1'' 1000 500]
        [mk_rule True 0 100 0 0 [mk_tier 2500 25, mk_tier 500 50]]) = Some (Finite 1500)
   \<and> map_option progress_percentage
     (calculateUserIncentive user1 [] ''u1'' [account1] [sale ''a1'' 600 300]
        [mk_rule True 0 100 0 200 [mk_tier 1000 25]]) = Some (Finite 50)
   \<and> map_option progress_percentage
     (calculateUserIncentive user1 [] ''u1'' [account1] [sale ''a1'' 1000 500]
        [mk_rule True 0 100 0 0 [mk_tier 0 50, mk_tier 4000 25]]) = Some (Finite 25)
   \<and> map_option progress_percentage
     (calculateUserIncentive user1 [] ''u1'' [account1] [sale ''a1'' 1000 500]
        [mk_rule True 0 100 0 0 [mk_tier 500 50]]) = Some (Finite 100)
   \<and> map_option remaining_to_next_tier
     (calculateUserIncentive user1 [] ''u1'' [account1] [sale ''a1'' 1000 500]
        [mk_rule True 0 100 0 0 [mk_tier 500 50]]) = Some (Finite 0)"
proof -
  let ?s1 = "[sale ''a1'' 1000 500]" and ?s2 = "[sale ''a1'' 600 300]"
  let ?r1 = "mk_rule True 0 100 0 0 [mk_tier 2500 25, mk_tier 500 50]"
  let ?r2 = "mk_rule True 0 100 0 200 [mk_tier 1000 25]"
  let ?r3 = "mk_rule True 0 100 0 0 [mk_tier 500 50]"
  let ?r4 = "mk_rule True 0 100 0 0 [mk_tier 0 50, mk_tier 4000 25]"
  have a: "[account1] \<noteq> []" by simp
  have b1: "find_bestRule (commissionRate [account1] ?s1) (filter is_active [?r1]) = Some ?r1"
    and b2: "find_bestRule (commissionRate [account1] ?s2) (filter is_active [?r2]) = Some ?r2"
    and b3: "find_bestRule (commissionRate [account1] ?s1) (filter is_active [?r3]) = Some ?r3"
    and b4: "find_bestRule (commissionRate [account1] ?s1) (filter is_active [?r4]) = Some ?r4"
    by (simp_all add: calc_defs example_defs round_evals)
  have q1: "qualifyingRevenue [account1] ?s1 ?r1 = Finite 1000"
    and q2: "qualifyingRevenue [account1] ?s2 ?r2 = Finite 600"
    and q3: "qualifyingRevenue [account1] ?s1 ?r3 = Finite 1000"
    and q4: "qualifyingRevenue [account1] ?s1 ?r4 = Finite 1000"
    by (simp_all add: calc_defs example_defs round_evals)
  have t1: "map_option current_tier
              (calculateUserIncentive user1 [] ''u1'' [account1] ?s1 [?r1])
              = Some (Some (mk_tier 500 50))"
    and n1: "map_option next_tier
              (calculateUserIncentive user1 [] ''u1'' [account1] ?s1 [?r1])
              = Some (Some (mk_tier 2500 25))"
    by (simp_all add: calc_defs example_defs round_evals)
  have t2: "map_option current_tier
              (calculateUserIncentive user1 [] ''u1'' [account1] ?s2 [?r2]) = Some None"
    and n2: "map_option next_tier
              (calculateUserIncentive user1 [] ''u1'' [account1] ?s2 [?r2])
              = Some (Some (mk_tier 1000 25))"
    by (simp_all add: calc_defs example_defs round_evals)
  have t3: "map_option current_tier
              (calculateUserIncentive user1 [] ''u1'' [account1] ?s1 [?r3])
              = Some (Some (mk_tier 500 50))"
    and n3: "map_option next_tier
              (calculateUserIncentive user1 [] ''u1'' [account1] ?s1 [?r3]) = Some None"
    by (simp_all add: calc_defs example_defs round_evals)
  have t4: "map_option current_tier
              (calculateUserIncentive user1 [] ''u1'' [account1] ?s1 [?r4])
              = Some (Some (mk_tier 0 50))"
    and n4: "map_option next_tier
              (calculateUserIncentive user1 [] ''u1'' [account1] ?s1 [?r4])
              = Some (Some (mk_tier 4000 25))"
    by (simp_all add: calc_defs example_defs round_evals)
  have v1: "js_max (Finite 0)
              (js_min (js_mul (js_div (js_sub (Finite 1000) (Finite 500))
                                 (js_sub (Finite 2500) (Finite 500))) (Finite 100)) (Finite 100))
            = Finite 25"
    and v1': "js_max (js_sub (Finite 2500) (Finite 1000)) (Finite 0) = Finite 1500"
    and v2: "js_min (js_mul (js_div (js_sub (Finite 600) (Finite 200))
                               (js_sub (Finite 1000) (Finite 200))) (Finite 100)) (Finite 100)
            = Finite 50"
    and v4: "js_max (Finite 0)
              (js_min (js_mul (js_div (js_sub (Finite 1000) (Finite 0))
                                 (js_sub (Finite 4000) (Finite 0))) (Finite 100)) (Finite 100))
            = Finite 25"
    by (simp_all add: calc_defs round_evals)
  from progress_to_next_tier[OF a b1, of user1 "[]" "''u1''"] t1 n1
  have w1: "map_option progress_percentage
     (calculateUserIncentive user1 [] ''u1'' [account1] ?s1 [?r1]) = Some (Finite 25)
   \<and> map_option remaining_to_next_tier
     (calculateUserIncentive user1 [] ''u1'' [account1] ?s1 [?r1]) = Some (Finite 1500)"
    unfolding q1 by (auto simp: mk_tier_def v1 v1')
  from progress_to_next_tier[OF a b2, of user1 "[]" "''u1''"] t2 n2
  have w2: "map_option progress_percentage
     (calculateUserIncentive user1 [] ''u1'' [account1] ?s2 [?r2]) = Some (Finite 50)"
    unfolding q2 by (auto simp: mk_tier_def mk_rule_def v2)
  from progress_to_next_tier[OF a b3, of user1 "[]" "''u1''"] t3 n3
  have w3: "map_option progress_percentage
     (calculateUserIncentive user1 [] ''u1'' [account1] ?s1 [?r3]) = Some (Finite 100)
   \<and> map_option remaining_to_next_tier
     (calculateUserIncentive user1 [] ''u1'' [account1] ?s1 [?r3]) = Some (Finite 0)"
    by auto
  from progress_to_next_tier[OF a b4, of user1 "[]" "''u1''"] t4 n4
  have w4: "map_option progress_percentage
     (calculateUserIncentive user1 [] ''u1'' [account1] ?s1 [?r4]) = Some (Finite 25)"
    unfolding q4 by (auto simp: mk_tier_def mk_rule_def v4)
  from w1 w2 w3 w4 show ?thesis by simp
qed

text \<open>
  Claim C5, as the code has it. In every calculation returned, \<open>progress_percentage\<close> is
  NaN or at most 100, and \<open>remaining_to_next_tier\<close> is at least 0. The progress is \<open>0\<close>
  when no rule applies and at least 0 when there is no next tier; it is NaN or at least
  0 when the current tier has a non-zero threshold, or the rule's
  \<open>base_revenue_threshold\<close> is at most the qualifying revenue.
\<close>

theorem progress_bounds:
  assumes "calculateUserIncentive cu au uid accs sales rules = Some c"
  shows "(progress_percentage c = NaN \<or> js_le (progress_percentage c) (Finite 100))
         \<and> js_le (Finite 0) (remaining_to_next_tier c)
         \<and> (applicable_rule c = None \<longrightarrow> progress_percentage c = Finite 0)
         \<and> (next_tier c = None \<longrightarrow> js_le (Finite 0) (progress_percentage c))
         \<and> ((\<exists>t. current_tier c = Some t \<and> revenue_threshold t \<noteq> 0)
               \<longrightarrow> progress_percentage c = NaN \<or> js_le (Finite 0) (progress_percentage c))
         \<and> (\<forall>r. applicable_rule c = Some r \<and>
                 js_le (Finite (base_revenue_threshold r)) (qualifyingRevenue accs sales r)
               \<longrightarrow> progress_percentage c = NaN \<or> js_le (Finite 0) (progress_percentage c))"
proof (cases "find_bestRule (commissionRate accs sales) (filter is_active rules)")
  case None
  from calc_unmatched[OF calc_Some_nonempty[OF assms] None, of cu au uid] assms
  show ?thesis by auto
next
  case (Some r)
  let ?q = "qualifyingRevenue accs sales r"
  from calc_Some_nonempty(1)[OF assms] Some obtain c'
    where c': "calculateUserIncentive cu au uid accs sales rules = Some c'"
    and ar: "applicable_rule c' = Some r"
    and cur: "current_tier c' = fst (snd (tier_loop ?q (sortedTiers r) (Finite 0, None)))"
    and nxt: "next_tier c' = snd (snd (tier_loop ?q (sortedTiers r) (Finite 0, None)))"
    and pp: "progress_percentage c' = fst (progress r ?q (current_tier c') (next_tier c'))"
    and rem: "remaining_to_next_tier c' = snd (progress r ?q (current_tier c') (next_tier c'))"
    by (rule calc_matched_fields)
  from c' assms have cc: "c' = c" by simp
  have gt: "\<not> js_le (Finite (revenue_threshold n)) ?q" if "next_tier c = Some n" for n
    using that nxt tier_loop_next_gt unfolding cc by metis
  have le: "js_le (Finite (revenue_threshold t)) ?q" if "current_tier c = Some t" for t
    using that cur tier_loop_current_le unfolding cc by metis
  have up: "progress_percentage c = NaN \<or> js_le (progress_percentage c) (Finite 100)"
    using progress_le_100[of r ?q "current_tier c" "next_tier c"] pp
    unfolding cc by simp
  have rm: "js_le (Finite 0) (remaining_to_next_tier c)"
    using rem progress_remaining_nonneg[of ?q r "current_tier c" "next_tier c",
        OF qualifyingRevenue_not_NaN]
    unfolding cc by simp
  have lowN: "js_le (Finite 0) (progress_percentage c)" if "next_tier c = None"
    using pp that unfolding cc by (simp add: progress_def split: option.split)
  have lowC: "progress_percentage c = NaN \<or> js_le (Finite 0) (progress_percentage c)"
    if "js_or (map_option revenue_threshold (current_tier c))
          (Finite (base_revenue_threshold r)) = Finite cT" "js_le (Finite cT) ?q" for cT
  proof (cases "next_tier c")
    case None
    then show ?thesis using lowN by simp
  next
    case (Some n)
    from progress_from_threshold[OF that(2) gt[OF Some] qualifyingRevenue_not_NaN] pp that(1)
    show ?thesis
      unfolding cc Some by (simp add: progress_def Let_def)
  qed
  have lowT: "progress_percentage c = NaN \<or> js_le (Finite 0) (progress_percentage c)"
    if "current_tier c = Some t" "revenue_threshold t \<noteq> 0" for t
    using lowC[of "revenue_threshold t"] le[OF that(1)] that by simp
  have lowB: "progress_percentage c = NaN \<or> js_le (Finite 0) (progress_percentage c)"
    if "js_le (Finite (base_revenue_threshold r)) ?q"
  proof (cases "current_tier c")
    case None
    with that lowC[of "base_revenue_threshold r"] show ?thesis by simp
  next
    case (Some t)
    show ?thesis
    proof (cases "revenue_threshold t = 0")
      case True
      with Some that lowC[of "base_revenue_threshold r"] show ?thesis by simp
    next
      case False
      with Some show ?thesis by (rule lowT)
    qed
  qed
  have ar': "applicable_rule c = Some r" using ar unfolding cc .
  show ?thesis
  proof (intro conjI allI impI)
    show "progress_percentage c = NaN \<or> js_le (progress_percentage c) (Finite 100)"
      by (rule up)
    show "js_le (Finite 0) (remaining_to_next_tier c)" by (rule rm)
    show "progress_percentage c = Finite 0" if "applicable_rule c = None"
      using that ar' by simp
    show "js_le (Finite 0) (progress_percentage c)" if "next_tier c = None"
      using that by (rule lowN)
    show "progress_percentage c = NaN \<or> js_le (Finite 0) (progress_percentage c)"
      if "\<exists>t. current_tier c = Some t \<and> revenue_threshold t \<noteq> 0"
      using that lowT by blast
    show "progress_percentage c = NaN \<or> js_le (Finite 0) (progress_percentage c)"
      if "applicable_rule c = Some r' \<and>
            js_le (Finite (base_revenue_threshold r')) (qualifyingRevenue accs sales r')" for r'
      using that ar' lowB by simp
  qed
qed

text \<open>
  There is no lower clamp: below a base threshold of 3000 and a first tier at 4000, a
  qualifying revenue of 2000 gives \<open>-100\<close>; with the base threshold at the first tier's
  threshold the division is by zero and gives \<open>-Infinity\<close>. And the percentage is NaN
  where both differences overflow: a base threshold of \<open>-3 * 2\<^sup>1\<^sup>0\<^sup>2\<^sup>2\<close>, a first tier at
  \<open>3 * 2\<^sup>1\<^sup>0\<^sup>2\<^sup>2\<close> and a revenue of \<open>2\<^sup>1\<^sup>0\<^sup>2\<^sup>3\<close> give \<open>Infinity / Infinity\<close>.
\<close>

theorem progress_bounds_counterexample:
  "map_option progress_percentage
     (calculateUserIncentive user1 [] ''u1'' [account1] [sale ''a1'' 2000 1000]
        [mk_rule True 0 100 0 3000 [mk_tier 4000 25]]) = Some (Finite (- 100))
   \<and> \<not> js_le (Finite 0) (Finite (- 100))
   \<and> map_option progress_percentage
     (calculateUserIncentive user1 [] ''u1'' [account1] [sale ''a1'' 500 250]
        [mk_rule True 0 100 0 2000 [mk_tier 2000 25]]) = Some NegInfinity
   \<and> \<not> js_le (Finite 0) NegInfinity
   \<and> map_option progress_percentage
     (calculateUserIncentive user1 [] ''u1'' [account1] [sale ''a1'' (2 ^ 1023) (2 ^ 1022)]
        [mk_rule True 0 100 0 (- 3 * 2 ^ 1022) [mk_tier (3 * 2 ^ 1022) 25]]) = Some NaN
   \<and> \<not> js_le (Finite 0) NaN \<and> \<not> js_le NaN (Finite 100)"
  by (simp add: calc_defs example_defs round_evals)

theorem progress_bounds_witness:
  "js_le (progress_percentage
      (the (calculateUserIncentive user1 [] ''u1'' [account1] [sale ''a1'' 600 300]
              [mk_rule True 0 100 0 200 [mk_tier 1000 25]]))) (Finite 100)
   \<and> js_le (Finite 0) (remaining_to_next_tier
      (the (calculateUserIncentive user1 [] ''u1'' [account1] [sale ''a1'' 600 300]
              [mk_rule True 0 100 0 200 [mk_tier 1000 25]])))
   \<and> js_le (Finite 0) (progress_percentage
      (the (calculateUserIncentive user1 [] ''u1'' [account1] [sale ''a1'' 600 300]
              [mk_rule True 0 100 0 200 [mk_tier 1000 25]])))"
proof -
  let ?s = "[sale ''a1'' 600 300]"
  let ?r = "mk_rule True 0 100 0 200 [mk_tier 1000 25]"
  let ?c = "the (calculateUserIncentive user1 [] ''u1'' [account1] ?s [?r])"
  have "calculateUserIncentive user1 [] ''u1'' [account1] ?s [?r] \<noteq> None"
    by (simp add: calc_None_iff mk_rule_def)
  then have s: "calculateUserIncentive user1 [] ''u1'' [account1] ?s [?r] = Some ?c"
    by simp
  have ar: "applicable_rule ?c = Some ?r"
    by (simp add: calc_defs example_defs round_evals)
  have q: "js_le (Finite (base_revenue_threshold ?r)) (qualifyingRevenue [account1] ?s ?r)"
    by (simp add: calc_defs example_defs round_evals)
  have n: "progress_percentage ?c \<noteq> NaN"
    by (simp add: calc_defs example_defs round_evals)
  note t = progress_bounds[OF s]
  from t have "progress_percentage ?c = NaN \<or> js_le (progress_percentage ?c) (Finite 100)"
    by (rule conjunct1)
  with n have 1: "js_le (progress_percentage ?c) (Finite 100)" by simp
  from t have 2: "js_le (Finite 0) (remaining_to_next_tier ?c)"
    by (rule conjunct2[THEN conjunct1])
  from t ar q have "progress_percentage ?c = NaN \<or> js_le (Finite 0) (progress_percentage ?c)"
    by blast
  with n have 3: "js_le (Finite 0) (progress_percentage ?c)" by simp
  from 1 2 3 show ?thesis by simp
qed

section \<open>The commission rate\<close>

lemma totalRevenue_not_NaN [simp]: "totalRevenue accs sales \<noteq> NaN"
  by (simp add: totalRevenue_def)

lemma totalCommission_not_NaN [simp]: "totalCommission accs sales \<noteq> NaN"
  by (simp add: totalCommission_def)

lemma js_rate_NaN:
  assumes "js_mul (js_div c t) (Finite 100) = NaN" and "c \<noteq> NaN" and "t \<noteq> NaN"
    and "js_lt (Finite 0) t"
  shows "t = PosInfinity \<and> (c = PosInfinity \<or> c = NegInfinity)"
proof -
  have "js_div c t = NaN"
    using assms(1) by (cases "js_div c t") (simp_all add: inf_signed_def)
  with assms(2-4) show ?thesis
    by (cases c; cases t) (simp_all split: if_splits)
qed

lemma round_double_within:
  assumes "- b \<le> q" and "q \<le> b" and "round_double b = Finite b"
  shows "\<exists>r. round_double q = Finite r \<and> \<bar>r\<bar> \<le> b"
proof -
  from assms(2) have "js_le (round_double q) (round_double b)" by (rule round_double_mono)
  then have u: "js_le (round_double q) (Finite b)" by (simp add: assms(3))
  from assms(1) have "js_le (round_double (- b)) (round_double q)" by (rule round_double_mono)
  then have l: "js_le (Finite (- b)) (round_double q)"
    by (simp add: round_double_minus assms(3))
  from u l show ?thesis by (cases "round_double q") auto
qed

lemma js_rate_finite:
  assumes "\<bar>c\<bar> \<le> t" and "0 < t"
  shows "\<exists>q. js_mul (js_div (Finite c) (Finite t)) (Finite 100) = Finite q \<and> \<bar>q\<bar> \<le> 100"
proof -
  from assms have "- 1 \<le> c / t" "c / t \<le> 1" by (simp_all add: field_simps)
  from round_double_within[OF this round_double_1]
  obtain x where x: "round_double (c / t) = Finite x" and b: "\<bar>x\<bar> \<le> 1" by blast
  from b have "- 100 \<le> x * 100" "x * 100 \<le> 100" by simp_all
  from round_double_within[OF this round_double_100]
  obtain q where "round_double (x * 100) = Finite q" and "\<bar>q\<bar> \<le> 100" by blast
  with x assms(2) show ?thesis by simp
qed

text \<open>
  Claim C8, as the code has it. The commission rate is total commission over total
  revenue times \<open>100\<close>, in the component's double arithmetic, when the total revenue is
  greater than zero, and \<open>0\<close> otherwise, so when the total revenue is zero; the division
  is never taken with a zero divisor, and the rate is the one the calculation reports.
  The rate is finite, between \<open>-100\<close> and \<open>100\<close>, when both totals are finite and the
  total commission is at most the total revenue in magnitude; it is NaN only when both
  totals have overflowed to an infinity.
\<close>

theorem commissionRate_guarded:
  "(js_lt (Finite 0) (totalRevenue accs sales) \<longrightarrow>
        commissionRate accs sales =
          js_mul (js_div (totalCommission accs sales) (totalRevenue accs sales)) (Finite 100)
        \<and> totalRevenue accs sales \<noteq> Finite 0)
   \<and> (totalRevenue accs sales = Finite 0 \<longrightarrow> commissionRate accs sales = Finite 0)
   \<and> (\<not> js_lt (Finite 0) (totalRevenue accs sales) \<longrightarrow> commissionRate accs sales = Finite 0)
   \<and> (commissionRate accs sales = NaN \<longrightarrow>
        totalRevenue accs sales = PosInfinity \<and>
        (totalCommission accs sales = PosInfinity \<or> totalCommission accs sales = NegInfinity))
   \<and> (\<forall>t c. totalRevenue accs sales = Finite t \<and> totalCommission accs sales = Finite c \<and>
             \<bar>c\<bar> \<le> t \<longrightarrow>
          (\<exists>q. commissionRate accs sales = Finite q \<and> \<bar>q\<bar> \<le> 100))
   \<and> (\<forall>c. calculateUserIncentive cu au uid accs sales rules = Some c \<longrightarrow>
          commission_rate c = commissionRate accs sales)"
proof (intro conjI allI impI)
  assume p: "js_lt (Finite 0) (totalRevenue accs sales)"
  then show "commissionRate accs sales =
          js_mul (js_div (totalCommission accs sales) (totalRevenue accs sales)) (Finite 100)"
    by (simp add: commissionRate_def)
  from p show "totalRevenue accs sales \<noteq> Finite 0" by auto
next
  assume "totalRevenue accs sales = Finite 0"
  then show "commissionRate accs sales = Finite 0" by (simp add: commissionRate_def)
next
  assume "\<not> js_lt (Finite 0) (totalRevenue accs sales)"
  then show "commissionRate accs sales = Finite 0" by (simp add: commissionRate_def)
next
  assume n: "commissionRate accs sales = NaN"
  then have p: "js_lt (Finite 0) (totalRevenue accs sales)"
    by (auto simp: commissionRate_def split: if_splits)
  with n have "js_mul (js_div (totalCommission accs sales) (totalRevenue accs sales))
                 (Finite 100) = NaN"
    by (simp add: commissionRate_def)
  from js_rate_NaN[OF this totalCommission_not_NaN totalRevenue_not_NaN p]
  show "totalRevenue accs sales = PosInfinity"
    and "totalCommission accs sales = PosInfinity \<or> totalCommission accs sales = NegInfinity"
    by simp_all
next
  fix t c
  assume h: "totalRevenue accs sales = Finite t \<and> totalCommission accs sales = Finite c \<and>
             \<bar>c\<bar> \<le> t"
  show "\<exists>q. commissionRate accs sales = Finite q \<and> \<bar>q\<bar> \<le> 100"
  proof (cases "0 < t")
    case True
    with h js_rate_finite[of c t] show ?thesis by (simp add: commissionRate_def)
  next
    case False
    with h show ?thesis by (simp add: commissionRate_def)
  qed
next
  fix c assume "calculateUserIncentive cu au uid accs sales rules = Some c"
  then show "commission_rate c = commissionRate accs sales" by (rule calc_commission_rate)
qed

text \<open>
  The rate is not always finite. A commission of \<open>2\<^sup>1\<^sup>0\<^sup>2\<^sup>0\<close> on a revenue of 1 gives finite
  totals and the rate \<open>Infinity\<close>, the multiplication by 100 overflowing; two rows with a
  revenue and a commission of \<open>2\<^sup>1\<^sup>0\<^sup>2\<^sup>3\<close> each give infinite totals and the rate NaN.
\<close>

theorem commissionRate_guarded_counterexample:
  "totalRevenue [account1] [sale ''a1'' 1 (2 ^ 1020)] = Finite 1
   \<and> totalCommission [account1] [sale ''a1'' 1 (2 ^ 1020)] = Finite (2 ^ 1020)
   \<and> commissionRate [account1] [sale ''a1'' 1 (2 ^ 1020)] = PosInfinity
   \<and> map_option commission_rate
        (calculateUserIncentive user1 [] ''u1'' [account1] [sale ''a1'' 1 (2 ^ 1020)]
           [mk_rule True 0 100 0 0 [mk_tier 0 50]]) = Some PosInfinity
   \<and> totalRevenue [account1] [sale ''a1'' (2 ^ 1023) (2 ^ 1023), sale ''a1'' (2 ^ 1023) (2 ^ 1023)]
       = PosInfinity
   \<and> totalCommission [account1]
        [sale ''a1'' (2 ^ 1023) (2 ^ 1023), sale ''a1'' (2 ^ 1023) (2 ^ 1023)] = PosInfinity
   \<and> commissionRate [account1]
        [sale ''a1'' (2 ^ 1023) (2 ^ 1023), sale ''a1'' (2 ^ 1023) (2 ^ 1023)] = NaN
   \<and> map_option commission_rate
        (calculateUserIncentive user1 [] ''u1'' [account1]
           [sale ''a1'' (2 ^ 1023) (2 ^ 1023), sale ''a1'' (2 ^ 1023) (2 ^ 1023)]
           [mk_rule True 0 100 0 0 [mk_tier 0 50]]) = Some NaN"
  by (simp add: calc_defs example_defs round_evals)

theorem commissionRate_guarded_witness:
  "js_lt (Finite 0) (totalRevenue [account1] [sale ''a1'' 200 14])
   \<and> commissionRate [account1] [sale ''a1'' 200 14]
       = Finite (7881299347898369 / 1125899906842624)
   \<and> totalRevenue [account1] [sale ''a2'' 200 14] = Finite 0
   \<and> commissionRate [account1] [sale ''a2'' 200 14] = Finite 0
   \<and> map_option commission_rate
        (calculateUserIncentive user1 [] ''u1'' [account1] [sale ''a1'' 200 14]
           [mk_rule True 0 100 0 0 []]) = Some (Finite (7881299347898369 / 1125899906842624))"
proof -
  have tr: "totalRevenue [account1] [sale ''a1'' 200 14] = Finite 200"
    and tc: "totalCommission [account1] [sale ''a1'' 200 14] = Finite 14"
    and z: "totalRevenue [account1] [sale ''a2'' 200 14] = Finite 0"
    by (simp_all add: calc_defs example_defs round_evals)
  have r: "js_lt (Finite 0) (totalRevenue [account1] [sale ''a1'' 200 14])"
    by (simp add: tr)
  have n: "calculateUserIncentive user1 [] ''u1'' [account1] [sale ''a1'' 200 14]
             [mk_rule True 0 100 0 0 []] \<noteq> None"
    by (simp add: calc_None_iff mk_rule_def)
  note t1 = commissionRate_guarded[of "[account1]" "[sale ''a1'' 200 14]" user1 "[]" "''u1''"
      "[mk_rule True 0 100 0 0 []]"]
  note t2 = commissionRate_guarded[of "[account1]" "[sale ''a2'' 200 14]" user1 "[]" "''u1''" "[]"]
  from t1[THEN conjunct1] r
  have "commissionRate [account1] [sale ''a1'' 200 14] =
          js_mul (js_div (totalCommission [account1] [sale ''a1'' 200 14])
                    (totalRevenue [account1] [sale ''a1'' 200 14])) (Finite 100)"
    by simp
  also have "\<dots> = Finite (7881299347898369 / 1125899906842624)"
    unfolding tr tc by (simp add: round_evals)
  finally have c1: "commissionRate [account1] [sale ''a1'' 200 14]
                      = Finite (7881299347898369 / 1125899906842624)" .
  from t2[THEN conjunct2, THEN conjunct1] z
  have c2: "commissionRate [account1] [sale ''a2'' 200 14] = Finite 0" by simp
  from n have s: "calculateUserIncentive user1 [] ''u1'' [account1] [sale ''a1'' 200 14]
             [mk_rule True 0 100 0 0 []]
      = Some (the (calculateUserIncentive user1 [] ''u1'' [account1] [sale ''a1'' 200 14]
             [mk_rule True 0 100 0 0 []]))"
    by simp
  note t3 = t1[THEN conjunct2, THEN conjunct2, THEN conjunct2, THEN conjunct2, THEN conjunct2]
  from t3[THEN spec, THEN mp, OF s]
  have "commission_rate (the (calculateUserIncentive user1 [] ''u1'' [account1]
          [sale ''a1'' 200 14] [mk_rule True 0 100 0 0 []]))
        = commissionRate [account1] [sale ''a1'' 200 14]" .
  with s have c3: "map_option commission_rate
        (calculateUserIncentive user1 [] ''u1'' [account1] [sale ''a1'' 200 14]
           [mk_rule True 0 100 0 0 []]) = Some (commissionRate [account1] [sale ''a1'' 200 14])"
    by (metis option.simps(9))
  from r c1 z c2 c3 show ?thesis by simp
qed

section \<open>The incentive within a band\<close>

lemma js_le_PosInfinity: "x \<noteq> NaN \<Longrightarrow> js_le x PosInfinity"
  by (cases x) simp_all

lemma js_le_NegInfinity: "y \<noteq> NaN \<Longrightarrow> js_le NegInfinity y"
  by (cases y) simp_all

lemma js_sub_mono:
  assumes "js_le x y"
  shows "js_le (js_sub x (Finite b)) (js_sub y (Finite b))"
proof (cases x)
  case x: (Finite a)
  show ?thesis
  proof (cases y)
    case (Finite c)
    with assms x have "a - b \<le> c - b" by simp
    then have "js_le (round_double (a - b)) (round_double (c - b))" by (rule round_double_mono)
    then show ?thesis by (simp add: x Finite js_sub_def)
  qed (use assms in \<open>simp_all add: x js_sub_def js_le_PosInfinity\<close>)
next
  case x: NegInfinity
  show ?thesis
    by (cases y) (use assms in \<open>simp_all add: x js_sub_def js_le_NegInfinity\<close>)
next
  case x: PosInfinity
  show ?thesis by (cases y) (use assms in \<open>simp_all add: x js_sub_def\<close>)
qed (use assms in simp)

lemma js_mul_mono:
  assumes "js_le (Finite 0) d1" and "js_le d1 d2" and "js_le (Finite 0) k"
  shows "js_mul d1 k = NaN \<or> js_mul d2 k = NaN \<or> js_le (js_mul d1 k) (js_mul d2 k)"
proof (cases k)
  case k: (Finite kk)
  with assms(3) have kk: "0 \<le> kk" by simp
  show ?thesis
  proof (cases d1)
    case d1: (Finite a)
    show ?thesis
    proof (cases d2)
      case (Finite b)
      with assms(2) d1 kk have "a * kk \<le> b * kk" by (simp add: mult_right_mono)
      then have "js_le (round_double (a * kk)) (round_double (b * kk))"
        by (rule round_double_mono)
      then show ?thesis by (simp add: k d1 Finite)
    qed (use assms in \<open>simp_all add: k d1 inf_signed_def js_le_PosInfinity\<close>)
  next
    case d1: PosInfinity
    show ?thesis by (cases d2) (use assms in \<open>simp_all add: k d1 inf_signed_def\<close>)
  qed (use assms in simp_all)
next
  case k: PosInfinity
  show ?thesis
    by (cases d1; cases d2) (use assms in \<open>simp_all add: k inf_signed_def\<close>)
qed (use assms in simp_all)

lemma js_add_mono:
  assumes "m1 = NaN \<or> m2 = NaN \<or> js_le m1 m2"
  shows "js_add K m1 = NaN \<or> js_add K m2 = NaN \<or> js_le (js_add K m1) (js_add K m2)"
proof (cases K)
  case K: (Finite a)
  show ?thesis
  proof (cases m1)
    case m1: (Finite b)
    show ?thesis
    proof (cases m2)
      case (Finite c)
      with assms m1 have "a + b \<le> a + c" by simp
      then have "js_le (round_double (a + b)) (round_double (a + c))"
        by (rule round_double_mono)
      then show ?thesis by (simp add: K m1 Finite)
    qed (use assms in \<open>simp_all add: K m1 js_le_PosInfinity\<close>)
  next
    case m1: NegInfinity
    show ?thesis by (cases m2) (simp_all add: K m1 js_le_NegInfinity)
  next
    case m1: PosInfinity
    show ?thesis by (cases m2) (use assms in \<open>simp_all add: K m1\<close>)
  qed (simp add: K)
next
  case K: PosInfinity
  show ?thesis by (cases m1; cases m2) (simp_all add: K)
next
  case K: NegInfinity
  show ?thesis by (cases m1; cases m2) (simp_all add: K)
qed simp

lemma tierRevenue_below:
  assumes "rest = n # ns" and "revenue_threshold n \<noteq> 0"
    and "js_lt (Finite (revenue_threshold n)) qRev"
  shows "tierRevenue qRev t rest =
           js_sub (Finite (revenue_threshold n)) (Finite (revenue_threshold t))"
  using assms by (cases qRev) (auto simp: tierRevenue_def js_min_def)

lemma tierRevenue_top:
  assumes "js_lt qRev (Finite (revenue_threshold hi))"
  shows "tierRevenue qRev lo (hi # post) = js_sub qRev (Finite (revenue_threshold lo))"
  using assms by (cases qRev) (auto simp: tierRevenue_def js_min_def)

lemma js_lt_Finite_trans: "a \<le> b \<Longrightarrow> js_lt (Finite b) x \<Longrightarrow> js_lt (Finite a) x"
  by (cases x) simp_all

lemma tier_loop_band:
  assumes "\<forall>t\<in>set pre. revenue_threshold t \<le> revenue_threshold lo"
    and "\<forall>n\<in>set (tl (pre @ [lo])). revenue_threshold n \<noteq> 0"
    and "js_lt (Finite (revenue_threshold lo)) q"
    and "js_lt q (Finite (revenue_threshold hi))"
  shows "fst (tier_loop q (pre @ lo # hi # post) (a, c))
         = js_add (lower_bands a (pre @ [lo]))
             (js_mul (js_sub q (Finite (revenue_threshold lo)))
                (js_div (Finite (incentive_rate lo)) (Finite 100)))"
  using assms(1,2)
proof (induction pre arbitrary: a c)
  case Nil
  from assms(3) have le: "js_le (Finite (revenue_threshold lo)) q" by (rule js_lt_imp_le)
  from assms(4) have gt: "\<not> js_le (Finite (revenue_threshold hi)) q"
    by (cases q) auto
  show ?case
    using le gt by (simp add: tierRevenue_top[OF assms(4)])
next
  case (Cons t pre)
  obtain n ns ms where nm: "pre @ lo # hi # post = n # ns" and nl: "pre @ [lo] = n # ms"
    and n: "n \<in> set (pre @ [lo])"
    by (cases pre) auto
  from n Cons.prems have nz: "revenue_threshold n \<noteq> 0"
    and nle: "revenue_threshold n \<le> revenue_threshold lo"
    by auto
  from Cons.prems have tle: "revenue_threshold t \<le> revenue_threshold lo" by simp
  have ih1: "\<forall>t\<in>set pre. revenue_threshold t \<le> revenue_threshold lo"
    using Cons.prems by simp
  have ih2: "\<forall>n\<in>set (tl (pre @ [lo])). revenue_threshold n \<noteq> 0"
    using Cons.prems(2) by (cases pre) auto
  have nlt: "js_lt (Finite (revenue_threshold n)) q"
    using nle assms(3) by (rule js_lt_Finite_trans)
  have v: "tierRevenue q t (pre @ lo # hi # post)
             = js_sub (Finite (revenue_threshold n)) (Finite (revenue_threshold t))"
    using nm nz nlt by (rule tierRevenue_below)
  have "js_lt (Finite (revenue_threshold t)) q"
    using tle assms(3) by (rule js_lt_Finite_trans)
  then have tq: "js_le (Finite (revenue_threshold t)) q" by (rule js_lt_imp_le)
  have lb: "lower_bands a ((t # pre) @ [lo])
              = lower_bands
                  (js_add a
                     (js_mul (js_sub (Finite (revenue_threshold n)) (Finite (revenue_threshold t)))
                        (js_div (Finite (incentive_rate t)) (Finite 100))))
                  (pre @ [lo])"
    by (simp add: nl)
  show ?case
    unfolding lb using Cons.IH[OF ih1 ih2] tq by (simp add: v)
qed

lemma sorted_prefix_le:
  assumes "sorted (map f (pre @ lo # rest))"
  shows "\<forall>t\<in>set pre. f t \<le> f lo"
  using assms by (simp add: sorted_append)

lemma sorted_sortedTiers: "sorted (map revenue_threshold (sortedTiers r))"
  by (simp add: sortedTiers_def)

text \<open>
  Claim C9, as the code has it. Take two tiers that are adjacent after the ascending
  sort, none of the tiers up to the lower one, the lowest apart, having a threshold of
  exactly \<open>0\<close>, and two inputs matched by the rule whose qualifying revenues lie strictly
  between the two thresholds, the first at most the second. Then each incentive amount
  is \<open>K + (qualifyingRevenue - t_lo) * (rate / 100)\<close>, evaluated in the component's
  double arithmetic, with the lower tier's rate and the same \<open>K\<close>, which is what the
  tiers below accrue over their whole bands. When the lower tier's rate is not negative
  the incentive does not decrease from the first input to the second, unless one of the
  two amounts is NaN.
\<close>

theorem incentive_linear_in_band:
  assumes "accs1 \<noteq> []"
    and "find_bestRule (commissionRate accs1 sales1) (filter is_active rules1) = Some r"
    and "accs2 \<noteq> []"
    and "find_bestRule (commissionRate accs2 sales2) (filter is_active rules2) = Some r"
    and "sortedTiers r = pre @ lo # hi # post"
    and "\<forall>n\<in>set (tl (pre @ [lo])). revenue_threshold n \<noteq> 0"
    and "js_lt (Finite (revenue_threshold lo)) (qualifyingRevenue accs1 sales1 r)"
    and "js_le (qualifyingRevenue accs1 sales1 r) (qualifyingRevenue accs2 sales2 r)"
    and "js_lt (qualifyingRevenue accs2 sales2 r) (Finite (revenue_threshold hi))"
  shows "\<exists>c1 c2.
           calculateUserIncentive cu au uid1 accs1 sales1 rules1 = Some c1 \<and>
           calculateUserIncentive cu au uid2 accs2 sales2 rules2 = Some c2 \<and>
           incentive_amount c1 =
             js_add (lower_bands (Finite 0) (pre @ [lo]))
               (js_mul (js_sub (qualifyingRevenue accs1 sales1 r) (Finite (revenue_threshold lo)))
                  (js_div (Finite (incentive_rate lo)) (Finite 100))) \<and>
           incentive_amount c2 =
             js_add (lower_bands (Finite 0) (pre @ [lo]))
               (js_mul (js_sub (qualifyingRevenue accs2 sales2 r) (Finite (revenue_threshold lo)))
                  (js_div (Finite (incentive_rate lo)) (Finite 100))) \<and>
           (0 \<le> incentive_rate lo \<longrightarrow>
              incentive_amount c1 = NaN \<or> incentive_amount c2 = NaN \<or>
              js_le (incentive_amount c1) (incentive_amount c2))"
proof -
  let ?q1 = "qualifyingRevenue accs1 sales1 r" and ?q2 = "qualifyingRevenue accs2 sales2 r"
  let ?lo = "Finite (revenue_threshold lo)"
  let ?k = "js_div (Finite (incentive_rate lo)) (Finite 100)"
  let ?K = "lower_bands (Finite 0) (pre @ [lo])"
  from assms(1,2) obtain c1 where c1: "calculateUserIncentive cu au uid1 accs1 sales1 rules1 = Some c1"
    and i1: "incentive_amount c1 = fst (tier_loop ?q1 (sortedTiers r) (Finite 0, None))"
    by (rule calc_matched_fields)
  from assms(3,4) obtain c2 where c2: "calculateUserIncentive cu au uid2 accs2 sales2 rules2 = Some c2"
    and i2: "incentive_amount c2 = fst (tier_loop ?q2 (sortedTiers r) (Finite 0, None))"
    by (rule calc_matched_fields)
  have le: "\<forall>t\<in>set pre. revenue_threshold t \<le> revenue_threshold lo"
    using sorted_sortedTiers[of r] unfolding assms(5) by (rule sorted_prefix_le)
  have b1: "js_lt ?q1 (Finite (revenue_threshold hi))"
    using assms(8,9) by (cases ?q1; cases ?q2) simp_all
  have b2: "js_lt ?lo ?q2"
    using assms(7,8) by (cases ?q1; cases ?q2) simp_all
  have e1: "incentive_amount c1 = js_add ?K (js_mul (js_sub ?q1 ?lo) ?k)"
    unfolding i1 assms(5) using le assms(6) assms(7) b1 by (rule tier_loop_band)
  have e2: "incentive_amount c2 = js_add ?K (js_mul (js_sub ?q2 ?lo) ?k)"
    unfolding i2 assms(5) using le assms(6) b2 assms(9) by (rule tier_loop_band)
  have m: "incentive_amount c1 = NaN \<or> incentive_amount c2 = NaN \<or>
             js_le (incentive_amount c1) (incentive_amount c2)"
    if "0 \<le> incentive_rate lo"
  proof -
    from that have "0 \<le> incentive_rate lo / 100" by simp
    then have "js_le (Finite 0) (round_double (incentive_rate lo / 100))"
      by (rule round_double_nonneg)
    then have k: "js_le (Finite 0) ?k" by simp
    have d: "js_le (Finite 0) (js_sub ?q1 ?lo)"
      using assms(7) by (intro js_sub_nonneg js_lt_imp_le)
    have s: "js_le (js_sub ?q1 ?lo) (js_sub ?q2 ?lo)"
      using assms(8) by (rule js_sub_mono)
    show ?thesis
      unfolding e1 e2 by (intro js_add_mono js_mul_mono d s k)
  qed
  show ?thesis
  proof (rule exI[of _ c1], rule exI[of _ c2], intro conjI impI)
    show "calculateUserIncentive cu au uid1 accs1 sales1 rules1 = Some c1" by (rule c1)
    show "calculateUserIncentive cu au uid2 accs2 sales2 rules2 = Some c2" by (rule c2)
    show "incentive_amount c1 = js_add ?K (js_mul (js_sub ?q1 ?lo) ?k)" by (rule e1)
    show "incentive_amount c2 = js_add ?K (js_mul (js_sub ?q2 ?lo) ?k)" by (rule e2)
    show "incentive_amount c1 = NaN \<or> incentive_amount c2 = NaN \<or>
             js_le (incentive_amount c1) (incentive_amount c2)"
      if "0 \<le> incentive_rate lo"
      using that by (rule m)
  qed
qed

text \<open>
  As stated the claim fails. With a lower tier of rate \<open>0\<close> the incentive is constant
  over the band. With a positive rate it still need not increase: under 50.5 percent
  the revenue 1.99 and the next double above it both give 1.00495. The difference is
  not the product either: between the revenues 1001 and 1002 under 7 percent the
  incentives differ by 0.07000000000000028, not by \<open>1 * (7 / 100)\<close>. And after a tier
  with threshold \<open>-100\<close> a tier with threshold \<open>0\<close> is taken for a missing one, the band
  below it grows with the revenue, and the slope in the band from 0 to 1000 is 75
  percent, not the 25 percent of its lower tier.
\<close>

theorem incentive_linear_in_band_counterexample:
  "map_option incentive_amount
     (calculateUserIncentive user1 [] ''u1'' [account1] [sale ''a1'' 100 50]
        [mk_rule True 0 100 0 0 [mk_tier 0 0, mk_tier 1000 25]]) = Some (Finite 0)
   \<and> map_option incentive_amount
     (calculateUserIncentive user1 [] ''u1'' [account1] [sale ''a1'' 200 100]
        [mk_rule True 0 100 0 0 [mk_tier 0 0, mk_tier 1000 25]]) = Some (Finite 0)
   \<and> map_option incentive_amount
     (calculateUserIncentive user1 [] ''u1'' [account1]
        [sale ''a1'' (8962163258467287 / 4503599627370496) 1]
        [mk_rule True 0 100 0 0 [mk_tier 0 (101 / 2), mk_tier 1000 25]])
       = Some (Finite (1131473111381495 / 1125899906842624))
   \<and> map_option incentive_amount
     (calculateUserIncentive user1 [] ''u1'' [account1]
        [sale ''a1'' (1120270407308411 / 562949953421312) 1]
        [mk_rule True 0 100 0 0 [mk_tier 0 (101 / 2), mk_tier 1000 25]])
       = Some (Finite (1131473111381495 / 1125899906842624))
   \<and> (8962163258467287 / 4503599627370496 :: rat) < 1120270407308411 / 562949953421312
   \<and> map_option incentive_amount
     (calculateUserIncentive user1 [] ''u1'' [account1] [sale ''a1'' 1001 100]
        [mk_rule True 0 100 0 0 [mk_tier 0 5, mk_tier 1000 7, mk_tier 5000 20]])
       = Some (Finite (7046726041951273 / 140737488355328))
   \<and> map_option incentive_amount
     (calculateUserIncentive user1 [] ''u1'' [account1] [sale ''a1'' 1002 100]
        [mk_rule True 0 100 0 0 [mk_tier 0 5, mk_tier 1000 7, mk_tier 5000 20]])
       = Some (Finite (3528288833068073 / 70368744177664))
   \<and> js_sub (Finite (3528288833068073 / 70368744177664))
        (Finite (7046726041951273 / 140737488355328))
       = Finite (9851624184873 / 140737488355328)
   \<and> js_mul (js_sub (Finite 1002) (Finite 1001)) (js_div (Finite 7) (Finite 100))
       = Finite (1261007895663739 / 18014398509481984)
   \<and> (9851624184873 / 140737488355328 :: rat) \<noteq> 1261007895663739 / 18014398509481984
   \<and> map_option incentive_amount
     (calculateUserIncentive user1 [] ''u1'' [account1] [sale ''a1'' 100 50]
        [mk_rule True 0 100 0 0 [mk_tier (- 100) 50, mk_tier 0 25, mk_tier 1000 75]])
       = Some (Finite 125)
   \<and> map_option incentive_amount
     (calculateUserIncentive user1 [] ''u1'' [account1] [sale ''a1'' 200 100]
        [mk_rule True 0 100 0 0 [mk_tier (- 100) 50, mk_tier 0 25, mk_tier 1000 75]])
       = Some (Finite 200)
   \<and> js_sub (Finite 200) (Finite 125) = Finite 75
   \<and> js_mul (js_sub (Finite 200) (Finite 100)) (js_div (Finite 25) (Finite 100)) = Finite 25"
  by (simp add: calc_defs example_defs round_evals)

theorem incentive_linear_in_band_witness:
  "map_option incentive_amount
     (calculateUserIncentive user1 [] ''u1'' [account1] [sale ''a1'' 2000 1000]
        [mk_rule True 0 100 0 0 [mk_tier 5000 75, mk_tier 0 50, mk_tier 1000 25]])
     = Some (Finite 750)
   \<and> map_option incentive_amount
     (calculateUserIncentive user1 [] ''u1'' [account1] [sale ''a1'' 3000 1500]
        [mk_rule True 0 100 0 0 [mk_tier 5000 75, mk_tier 0 50, mk_tier 1000 25]])
     = Some (Finite 1000)"
proof -
  let ?s1 = "[sale ''a1'' 2000 1000]" and ?s2 = "[sale ''a1'' 3000 1500]"
  let ?r = "mk_rule True 0 100 0 0 [mk_tier 5000 75, mk_tier 0 50, mk_tier 1000 25]"
  let ?lo = "mk_tier 1000 25" and ?hi = "mk_tier 5000 75"
  have a: "[account1] \<noteq> []" by simp
  have b1: "find_bestRule (commissionRate [account1] ?s1) (filter is_active [?r]) = Some ?r"
    and b2: "find_bestRule (commissionRate [account1] ?s2) (filter is_active [?r]) = Some ?r"
    by (simp_all add: calc_defs example_defs round_evals)
  have st: "sortedTiers ?r = [mk_tier 0 50] @ ?lo # ?hi # []"
    by (simp add: calc_defs example_defs)
  have nz: "\<forall>n\<in>set (tl ([mk_tier 0 50] @ [?lo])). revenue_threshold n \<noteq> 0"
    by (simp add: mk_tier_def)
  have q1: "qualifyingRevenue [account1] ?s1 ?r = Finite 2000"
    and q2: "qualifyingRevenue [account1] ?s2 ?r = Finite 3000"
    by (simp_all add: calc_defs example_defs round_evals)
  have h7: "js_lt (Finite (revenue_threshold ?lo)) (qualifyingRevenue [account1] ?s1 ?r)"
    and h8: "js_le (qualifyingRevenue [account1] ?s1 ?r) (qualifyingRevenue [account1] ?s2 ?r)"
    and h9: "js_lt (qualifyingRevenue [account1] ?s2 ?r) (Finite (revenue_threshold ?hi))"
    unfolding q1 q2 by (simp_all add: mk_tier_def)
  have v1: "js_add (lower_bands (Finite 0) ([mk_tier 0 50] @ [?lo]))
              (js_mul (js_sub (Finite 2000) (Finite (revenue_threshold ?lo)))
                 (js_div (Finite (incentive_rate ?lo)) (Finite 100))) = Finite 750"
    and v2: "js_add (lower_bands (Finite 0) ([mk_tier 0 50] @ [?lo]))
              (js_mul (js_sub (Finite 3000) (Finite (revenue_threshold ?lo)))
                 (js_div (Finite (incentive_rate ?lo)) (Finite 100))) = Finite 1000"
    by (simp_all add: calc_defs example_defs round_evals)
  from incentive_linear_in_band[OF a b1 a b2 st nz h7 h8 h9, of user1 "[]" "''u1''" "''u1''"]
  obtain c1 c2 where
    "calculateUserIncentive user1 [] ''u1'' [account1] ?s1 [?r] = Some c1"
    "calculateUserIncentive user1 [] ''u1'' [account1] ?s2 [?r] = Some c2"
    "incentive_amount c1 =
       js_add (lower_bands (Finite 0) ([mk_tier 0 50] @ [?lo]))
         (js_mul (js_sub (qualifyingRevenue [account1] ?s1 ?r) (Finite (revenue_threshold ?lo)))
            (js_div (Finite (incentive_rate ?lo)) (Finite 100)))"
    "incentive_amount c2 =
       js_add (lower_bands (Finite 0) ([mk_tier 0 50] @ [?lo]))
         (js_mul (js_sub (qualifyingRevenue [account1] ?s2 ?r) (Finite (revenue_threshold ?lo)))
            (js_div (Finite (incentive_rate ?lo)) (Finite 100)))"
    by (elim exE conjE)
  then show ?thesis
    unfolding q1 q2 v1 v2 by simp
qed

end
